theory Spec2Isabelle
  imports Complex_Main "HOL-Library.Multiset" "HOL-Library.Log_Nat"
begin

section \<open>Values shared by the components\<close>

text \<open>
  The exceptions the modelled code raises, and the one warning it emits.
  A function that can raise returns \<open>error + 'a\<close>, with \<open>Inl\<close> the exception.
\<close>

datatype error = TypeError | ValueError | IndexError

datatype warning = BatchSizeClipped int nat

text \<open>
  A float64 entry of a utility array is \<open>NaN\<close> (\<open>None\<close>) or a finite number
  (\<open>Some v\<close>); rounding is not modelled. An \<open>ndarray\<close> is its shape and its entries in
  row-major (C) order; \<open>wf_ndarray\<close> says that the two fit.
\<close>

type_synonym flt = "real option"

record 'a ndarray =
  shape :: "nat list"
  data :: "'a list"

definition wf_ndarray :: "'a ndarray \<Rightarrow> bool" where
  "wf_ndarray a = (length (data a) = prod_list (shape a))"

text \<open>
  Multi-dimensional indexing in row-major order: \<open>unravel_index\<close> is numpy's function
  of that name, \<open>flat_index\<close> its inverse, \<open>in_bounds\<close> the range check of an
  indexing with a full tuple (numpy raises IndexError outside).
\<close>

fun unravel_index :: "nat \<Rightarrow> nat list \<Rightarrow> nat list" where
  "unravel_index k [] = []"
| "unravel_index k (d # ds) = (k div prod_list ds) # unravel_index (k mod prod_list ds) ds"

fun in_bounds :: "nat list \<Rightarrow> nat list \<Rightarrow> bool" where
  "in_bounds [] [] = True"
| "in_bounds (i # js) (d # ds) = (i < d \<and> in_bounds js ds)"
| "in_bounds _ _ = False"

fun flat_index :: "nat list \<Rightarrow> nat list \<Rightarrow> nat" where
  "flat_index [] [] = 0"
| "flat_index (i # js) (d # ds) = i * prod_list ds + flat_index js ds"
| "flat_index _ _ = 0"

definition getitem :: "'a ndarray \<Rightarrow> nat list \<Rightarrow> error + 'a" where
  "getitem a idx =
     (if in_bounds idx (shape a) then Inr (data a ! flat_index idx (shape a))
      else Inl IndexError)"

definition setitem :: "'a ndarray \<Rightarrow> nat list \<Rightarrow> 'a \<Rightarrow> error + 'a ndarray" where
  "setitem a idx v =
     (if in_bounds idx (shape a)
      then Inr (a\<lparr>data := (data a)[flat_index idx (shape a) := v]\<rparr>)
      else Inl IndexError)"

text \<open>
  Random sources. The pseudo-random number generator itself is a parameter \<open>G\<close>:
  \<open>G s k\<close> is the \<open>k\<close>-th raw output of the generator seeded with \<open>s\<close>. A
  \<open>random_state\<close> argument is an integer seed or a generator object (its seed and the
  number of outputs already consumed); \<open>None\<close>, numpy's process-wide generator, is a
  generator object too. \<open>draw\<close> is \<open>check_random_state\<close> followed by one output: a
  seed builds a fresh generator on every call (the seed itself is unchanged), a
  generator object is advanced in place.
\<close>

type_synonym prng = "nat \<Rightarrow> nat \<Rightarrow> nat"

datatype random_state = Seed nat | Generator nat nat

fun draw :: "prng \<Rightarrow> random_state \<Rightarrow> nat \<times> random_state" where
  "draw G (Seed s) = (G s 0, Seed s)"
| "draw G (Generator s k) = (G s k, Generator s (Suc k))"

section \<open>Random tie-break arg-max selector\<close>

text \<open>
  Modelled from the spec: \<open>rand_argmax\<close> (skactiveml/utils/\_selection.py is not among
  the sources). Spec 4.1: the index of the maximum value, chosen among all positions
  tied for the maximum, \<open>NaN\<close> positions excluded; deterministic given the random
  source; fails if all entries are \<open>NaN\<close>. The choice among the tied positions is made
  by one output of the random source; that the choice is uniform is a statement about
  the generator and is not modelled.
\<close>

definition nan_max :: "('a::linorder) option list \<Rightarrow> 'a option" where
  "nan_max xs =
     (case map the (filter (\<lambda>x. x \<noteq> None) xs) of
        [] \<Rightarrow> None
      | v # vs \<Rightarrow> Some (fold max vs v))"

definition tied_positions :: "('a::linorder) option list \<Rightarrow> nat list" where
  "tied_positions xs =
     (case nan_max xs of
        None \<Rightarrow> []
      | Some m \<Rightarrow> filter (\<lambda>i. xs ! i = Some m) [0..<length xs])"

definition rand_choice :: "prng \<Rightarrow> random_state \<Rightarrow> nat list \<Rightarrow> error + (nat \<times> random_state)" where
  "rand_choice G rs ts =
     (case ts of
        [] \<Rightarrow> Inl ValueError
      | t # ts' \<Rightarrow> (case draw G rs of (r, rs') \<Rightarrow> Inr ((t # ts') ! (r mod length (t # ts')), rs')))"

definition rand_argmax ::
  "prng \<Rightarrow> ('a::linorder) option ndarray \<Rightarrow> random_state \<Rightarrow> error + (nat list \<times> random_state)" where
  "rand_argmax G a rs =
     (case rand_choice G rs (tied_positions (data a)) of
        Inl e \<Rightarrow> Inl e
      | Inr (k, rs') \<Rightarrow> Inr (unravel_index k (shape a), rs'))"

section \<open>Batch reduction engine\<close>

text \<open>
  \<open>check_array\<close> is scikit-learn's validator, called by \<open>simple_batch\<close> with
  \<open>ensure_2d=False, dtype=float, force_all_finite='allow-nan', allow_nd=True\<close>. For a
  float array (entries \<open>NaN\<close> or finite, which the type \<open>flt\<close> says) it rejects a
  0-dimensional array (TypeError), an array without samples and a 2-dimensional array
  without features (ValueError). The array it returns has the entries of its argument
  and the dtype float64: it is the argument itself when that is a float64 ndarray, and
  a converted copy, a new array, when the argument is an ndarray of another dtype
  (float32, float16, an integer dtype, whose arrays have no \<open>NaN\<close> entry). The
  entries returned are \<open>check_array a\<close>; whether they are held by a new array, which
  the writes of the caller do not reach, is \<open>is_converted_copy\<close> of the dtype of the
  caller's array, an argument of \<open>simple_batch\<close> of its own.
\<close>

datatype dtype = Float64 | Float32 | Float16 | Int64

definition is_converted_copy :: "dtype \<Rightarrow> bool" where
  "is_converted_copy dt = (dt \<noteq> Float64)"

definition check_array :: "flt ndarray \<Rightarrow> error + flt ndarray" where
  "check_array a =
     (case shape a of
        [] \<Rightarrow> Inl TypeError
      | n # ds \<Rightarrow>
          if n = 0 then Inl ValueError
          else if length ds = 1 \<and> hd ds = 0 then Inl ValueError
          else Inr a)"

text \<open>
  Modelled from the spec: \<open>check_scalar\<close> (skactiveml/utils/\_validation.py is not
  among the sources), for an integer argument with a lower bound. Spec 7: a value of
  the wrong type is a TypeError, a value of the right type out of range a ValueError.
  The type check is the type \<open>int\<close> of the argument.
\<close>

definition check_scalar_int :: "int \<Rightarrow> int \<Rightarrow> error option" where
  "check_scalar_int x min_val = (if x < min_val then Some ValueError else None)"

definition count_not_nan :: "'a option list \<Rightarrow> nat" where
  "count_not_nan xs = length (filter (\<lambda>x. x \<noteq> None) xs)"

text \<open>
  The loop of \<open>simple_batch\<close>, \<open>n\<close> iterations left: select by \<open>rand_argmax\<close>, record
  the index, snapshot the utilities into the next row of the history, then overwrite
  the selected entry of \<open>utilities\<close> itself with \<open>NaN\<close>. It returns the rows of
  \<open>best_indices\<close>, the rows of \<open>batch_utilities\<close>, and \<open>utilities\<close> and the random
  source as the loop leaves them.
\<close>

fun batch_loop ::
  "prng \<Rightarrow> nat \<Rightarrow> flt ndarray \<Rightarrow> random_state \<Rightarrow>
   error + (nat list list \<times> flt list list \<times> flt ndarray \<times> random_state)" where
  "batch_loop G 0 u rs = Inr ([], [], u, rs)"
| "batch_loop G (Suc n) u rs =
     (case rand_argmax G u rs of
        Inl e \<Rightarrow> Inl e
      | Inr (idx, rs') \<Rightarrow>
          (case setitem u idx None of
             Inl e \<Rightarrow> Inl e
           | Inr u' \<Rightarrow>
               (case batch_loop G n u' rs' of
                  Inl e \<Rightarrow> Inl e
                | Inr (idxs, rows, uf, rsf) \<Rightarrow> Inr (idx # idxs, data u # rows, uf, rsf))))"

text \<open>
  What a call of \<open>simple_batch\<close> leaves behind: the returned index array (flattened
  to one dimension when \<open>utilities\<close> is one-dimensional), the returned utility history
  (\<open>None\<close> when \<open>return_utilities\<close> is false), the warnings emitted, and the caller's
  own array and random source after the call. When \<open>check_array\<close> made no copy, the
  loop's writes are writes to the caller's array; when it made one, the caller's array
  is as it was.
\<close>

datatype index_array = Index1D "nat list" | IndexND "nat list list"

record batch =
  best_indices :: index_array
  batch_utilities :: "flt ndarray option"
  warnings :: "warning list"
  utilities_after :: "flt ndarray"
  random_state_after :: random_state

definition simple_batch ::
  "prng \<Rightarrow> dtype \<Rightarrow> flt ndarray \<Rightarrow> random_state \<Rightarrow> int \<Rightarrow> bool \<Rightarrow> error + batch" where
  "simple_batch G dt utilities random_state batch_size return_utilities =
     (case check_array utilities of
        Inl e \<Rightarrow> Inl e
      | Inr u \<Rightarrow>
          (case check_scalar_int batch_size 1 of
             Some e \<Rightarrow> Inl e
           | None \<Rightarrow>
               (let max_batch_size = count_not_nan (data u);
                    clipped = (int max_batch_size < batch_size);
                    b = (if clipped then max_batch_size else nat batch_size)
                in case batch_loop G b u random_state of
                     Inl e \<Rightarrow> Inl e
                   | Inr (idxs, rows, uf, rsf) \<Rightarrow>
                       Inr \<lparr>best_indices =
                              (if length (shape u) = 1 then Index1D (concat idxs)
                               else IndexND idxs),
                            batch_utilities =
                              (if return_utilities
                               then Some \<lparr>shape = b # shape u, data = concat rows\<rparr>
                               else None),
                            warnings =
                              (if clipped then [BatchSizeClipped batch_size max_batch_size]
                               else []),
                            utilities_after = (if is_converted_copy dt then utilities else uf),
                            random_state_after = rsf\<rparr>)))"

text \<open>Reading the returned arrays: the rows of an index array, and row \<open>k\<close> of a history.\<close>

fun index_rows :: "index_array \<Rightarrow> nat list list" where
  "index_rows (Index1D ks) = map (\<lambda>k. [k]) ks"
| "index_rows (IndexND rows) = rows"

definition history_row :: "'a ndarray \<Rightarrow> nat \<Rightarrow> 'a ndarray" where
  "history_row h k =
     \<lparr>shape = tl (shape h),
      data = take (prod_list (tl (shape h))) (drop (k * prod_list (tl (shape h))) (data h))\<rparr>"

definition nan_at :: "nat list \<Rightarrow> 'a option list \<Rightarrow> 'a option list" where
  "nan_at ks xs = fold (\<lambda>k ys. ys[k := None]) ks xs"

definition example_prng :: prng where
  "example_prng s k = s + k"

definition example_utilities :: "flt ndarray" where
  "example_utilities = \<lparr>shape = [2, 2], data = [Some 1, None, Some 3, Some 3]\<rparr>"

definition example_batch :: batch where
  "example_batch =
     \<lparr>best_indices = IndexND [[1, 0], [1, 1]],
      batch_utilities =
        Some \<lparr>shape = [2, 2, 2],
              data = [Some 1, None, Some 3, Some 3, Some 1, None, None, Some 3]\<rparr>,
      warnings = [],
      utilities_after = \<lparr>shape = [2, 2], data = [Some 1, None, None, None]\<rparr>,
      random_state_after = Generator 0 2\<rparr>"



section \<open>Expected Error Reduction\<close>

text \<open>
  Feature matrices are lists of rows, label vectors are lists of floats, the
  missing label (\<open>MISSING_LABEL\<close>, \<open>NaN\<close> by default) being any value of \<open>flt\<close>.
  Matrices are rectangular; elementwise products are taken over arrays of equal shape,
  which the classifier's contract (one row per sample, one column per class) and a
  square cost matrix give. numpy's broadcasting of other shapes is not modelled.
\<close>

type_synonym matrix = "real list list"

type_synonym labels = "flt list"

text \<open>
  The classifier is the external collaborator of spec 6: an object with \<open>fit\<close> and
  \<open>predict_proba\<close>, its \<open>classes\<close> and its \<open>missing_label\<close>. \<open>clone\<close> gives an
  unfitted copy with the same hyper-parameters and \<open>fit\<close> trains from scratch, so the
  fitted state \<open>'m\<close> is a function of the training set. The first field says whether
  the object is an instance of \<open>ClassFrequencyEstimator\<close>. Every call of \<open>fit\<close> is
  recorded with its training set in a \<open>fit_log\<close>.
\<close>

record 'm classifier =
  is_class_frequency_estimator :: bool
  clf_classes :: "real list"
  clf_missing_label :: flt
  fit :: "matrix \<Rightarrow> labels \<Rightarrow> 'm"
  predict_proba :: "'m \<Rightarrow> matrix \<Rightarrow> matrix"

type_synonym fit_log = "(matrix \<times> labels) list"

text \<open>
  Modelled from the spec: \<open>is_labeled\<close> (skactiveml/utils/\_label.py is not among the
  sources). Spec 3: a label is missing when it equals the missing-label marker under a
  comparison in which \<open>NaN\<close> equals \<open>NaN\<close>.
\<close>

definition is_labeled :: "labels \<Rightarrow> flt \<Rightarrow> bool list" where
  "is_labeled y missing_label = map (\<lambda>l. l \<noteq> missing_label) y"

text \<open>
  numpy indexing as the function uses it: a boolean mask (IndexError when its length
  is not the array's), \<open>np.where(classes == label)[0][0]\<close> (IndexError when no class
  equals the label; \<open>NaN\<close> equals no class), a list of row numbers, and \<open>P[i, yi]\<close>.
\<close>

definition mask_select :: "'a list \<Rightarrow> bool list \<Rightarrow> error + 'a list" where
  "mask_select xs keep =
     (if length xs = length keep then Inr (map fst (filter snd (zip xs keep)))
      else Inl IndexError)"

fun where_first :: "real list \<Rightarrow> flt \<Rightarrow> error + nat" where
  "where_first [] l = Inl IndexError"
| "where_first (c # cs) l =
     (if Some c = l then Inr 0
      else (case where_first cs l of Inl e \<Rightarrow> Inl e | Inr k \<Rightarrow> Inr (Suc k)))"

fun each_or_error :: "('a \<Rightarrow> error + 'b) \<Rightarrow> 'a list \<Rightarrow> error + 'b list" where
  "each_or_error f [] = Inr []"
| "each_or_error f (a # as) =
     (case f a of
        Inl e \<Rightarrow> Inl e
      | Inr b \<Rightarrow> (case each_or_error f as of Inl e \<Rightarrow> Inl e | Inr bs \<Rightarrow> Inr (b # bs)))"

definition take_rows :: "matrix \<Rightarrow> nat list \<Rightarrow> error + matrix" where
  "take_rows M ks =
     (if list_all (\<lambda>k. k < length M) ks then Inr (map (\<lambda>k. M ! k) ks) else Inl IndexError)"

definition item2 :: "matrix \<Rightarrow> nat \<Rightarrow> nat \<Rightarrow> error + real" where
  "item2 P i j =
     (if i < length P then (if j < length (P ! i) then Inr (P ! i ! j) else Inl IndexError)
      else Inl IndexError)"

text \<open>
  The three risks. \<open>sum_product A B\<close> is \<open>np.sum(A * B)\<close>; \<open>emr_cost P C\<close> is
  \<open>np.sum((P.T[:, None] * P.T).T * C)\<close>, the sum over samples \<open>k\<close> and classes \<open>b\<close>,
  \<open>a\<close> of \<open>P[k, a] * P[k, b] * C[b, a]\<close>; \<open>log_loss_cost P\<close> is
  \<open>-np.sum(P * np.log(P + np.finfo(float).eps))\<close>.
\<close>

definition sum_product :: "matrix \<Rightarrow> matrix \<Rightarrow> real" where
  "sum_product A B = sum_list (map2 (\<lambda>a b. sum_list (map2 (*) a b)) A B)"

definition emr_cost :: "matrix \<Rightarrow> matrix \<Rightarrow> real" where
  "emr_cost P C =
     sum_list (map (\<lambda>p. sum_list (map2 (\<lambda>pb crow. sum_list (map2 (\<lambda>pa c. pa * pb * c) p crow)) p C)) P)"

definition float_eps :: real where
  "float_eps = 1 / 2 ^ 52"

definition log_loss_cost :: "matrix \<Rightarrow> real" where
  "log_loss_cost P = - sum_list (map (\<lambda>p. sum_list (map (\<lambda>v. v * ln (v + float_eps)) p)) P)"

text \<open>
  The logarithm has no code equation: \<open>log_loss_cost\<close> is left out of evaluation.
\<close>

declare log_loss_cost_def [code del]

definition zero_one_cost :: "nat \<Rightarrow> matrix" where
  "zero_one_cost n = map (\<lambda>i. map (\<lambda>j. if i = j then 0 else 1) [0..<n]) [0..<n]"

text \<open>
  The body of the inner loop after the refit, lines 162 to 180: the risk \<open>costs\<close> of
  the refit model \<open>m\<close> under the chosen method.
\<close>

definition costs ::
  "'m classifier \<Rightarrow> 'm \<Rightarrow> string \<Rightarrow> matrix \<Rightarrow> matrix \<Rightarrow> labels \<Rightarrow> real list \<Rightarrow> matrix \<Rightarrow> error + real" where
  "costs clf m method X_cand X y classes C =
     (if method = ''emr'' then Inr (emr_cost (predict_proba clf m X_cand) C)
      else if method = ''csl'' then
        (case mask_select X (is_labeled y (clf_missing_label clf)) of
           Inl e \<Rightarrow> Inl e
         | Inr X_labeled \<Rightarrow>
             (case mask_select y (is_labeled y (clf_missing_label clf)) of
                Inl e \<Rightarrow> Inl e
              | Inr y_labeled \<Rightarrow>
                  (case each_or_error (where_first classes) y_labeled of
                     Inl e \<Rightarrow> Inl e
                   | Inr y_indices \<Rightarrow>
                       if length X_labeled > 0 then
                         (case take_rows C y_indices of
                            Inl e \<Rightarrow> Inl e
                          | Inr C_rows \<Rightarrow> Inr (sum_product (predict_proba clf m X_labeled) C_rows))
                       else Inr 0)))
      else if method = ''log_loss'' then Inr (log_loss_cost (predict_proba clf m X_cand))
      else Inl ValueError)"

text \<open>
  A \<open>for\<close> loop that can raise and that logs: \<open>for_each f xs\<close> runs \<open>f\<close> on the
  elements in order, appends the logs, and stops at the first exception.
\<close>

fun for_each :: "('a \<Rightarrow> (error + 'b) \<times> 'l list) \<Rightarrow> 'a list \<Rightarrow> (error + 'b list) \<times> 'l list" where
  "for_each f [] = (Inr [], [])"
| "for_each f (a # as) =
     (case f a of
        (Inl e, l) \<Rightarrow> (Inl e, l)
      | (Inr b, l) \<Rightarrow>
          (case for_each f as of
             (Inl e, l') \<Rightarrow> (Inl e, l @ l')
           | (Inr bs, l') \<Rightarrow> (Inr (b # bs), l @ l')))"

text \<open>
  One pass of the inner loop, lines 160 to 181, for candidate \<open>i\<close> with features \<open>x\<close>
  and \<open>yi\<close> in \<open>range(n_classes)\<close>: the clone is refit on \<open>X\<close> with \<open>x\<close> appended and
  \<open>y\<close> with \<open>yi\<close> appended (line 161: \<open>np.append(y, [[yi]])\<close>, the number \<open>yi\<close> itself),
  and the value stored in \<open>errors_per_class[yi]\<close> is \<open>P[i, yi] * costs\<close>.
\<close>

definition error_per_class ::
  "'m classifier \<Rightarrow> string \<Rightarrow> matrix \<Rightarrow> matrix \<Rightarrow> labels \<Rightarrow> real list \<Rightarrow> matrix \<Rightarrow> matrix \<Rightarrow>
   nat \<Rightarrow> real list \<Rightarrow> nat \<Rightarrow> (error + real) \<times> fit_log" where
  "error_per_class clf method X_cand X y classes C P i x yi =
     (let X_new = X @ [x];
          y_new = y @ [Some (real yi)];
          m = fit clf X_new y_new
      in (case costs clf m method X_cand X y classes C of
            Inl e \<Rightarrow> Inl e
          | Inr c \<Rightarrow> (case item2 P i yi of Inl e \<Rightarrow> Inl e | Inr p \<Rightarrow> Inr (p * c)),
          [(X_new, y_new)]))"

text \<open>One pass of the outer loop, lines 159 to 182: \<open>errors[i]\<close>.\<close>

definition error_of_candidate ::
  "'m classifier \<Rightarrow> string \<Rightarrow> matrix \<Rightarrow> matrix \<Rightarrow> labels \<Rightarrow> real list \<Rightarrow> matrix \<Rightarrow> matrix \<Rightarrow>
   nat \<times> real list \<Rightarrow> (error + real) \<times> fit_log" where
  "error_of_candidate clf method X_cand X y classes C P ix =
     (case for_each (error_per_class clf method X_cand X y classes C P (fst ix) (snd ix))
             [0..<length classes] of
        (Inl e, l) \<Rightarrow> (Inl e, l)
      | (Inr errors_per_class, l) \<Rightarrow> (Inr (sum_list errors_per_class), l))"

definition n_columns :: "matrix \<Rightarrow> nat" where
  "n_columns P = (case P of [] \<Rightarrow> 0 | p # _ \<Rightarrow> length p)"

text \<open>
  \<open>expected_error_reduction\<close>, lines 147 to 183. The result is the utilities or the
  exception, with the log of the calls of \<open>fit\<close> made up to there.
\<close>

definition expected_error_reduction ::
  "'m classifier \<Rightarrow> matrix \<Rightarrow> matrix \<Rightarrow> labels \<Rightarrow> real list \<Rightarrow> matrix option \<Rightarrow> string \<Rightarrow>
   (error + real list) \<times> fit_log" where
  "expected_error_reduction clf X_cand X y classes C method =
     (if length X > 0 \<and> length X_cand > 0 \<and> n_columns X \<noteq> n_columns X_cand
      then (Inl ValueError, [])
      else
        (let m = fit clf X y;
             P = predict_proba clf m X_cand;
             C' = (case C of None \<Rightarrow> zero_one_cost (n_columns P) | Some c \<Rightarrow> c)
         in case for_each (error_of_candidate clf method X_cand X y classes C' P)
                   (zip [0..<length X_cand] X_cand) of
              (Inl e, l) \<Rightarrow> (Inl e, (X, y) # l)
            | (Inr errors, l) \<Rightarrow> (Inr (map uminus errors), (X, y) # l)))"

text \<open>
  The strategy object. \<open>check_classifier_params\<close> (skactiveml/utils/\_validation.py)
  is not among the sources: its verdict on \<open>classes\<close>, \<open>missing_label\<close> and \<open>C\<close> is the
  parameter \<open>ccp\<close> of \<open>query\<close> (\<open>None\<close>: it raises nothing). scikit-learn's
  \<open>check_array\<close> with its defaults rejects a matrix without rows or without columns,
  with \<open>ensure_2d=False\<close> a vector without entries. \<open>check_random_state\<close> turns a seed
  into a fresh generator object and returns a generator object as it is.
\<close>

record 'm expected_error_reduction_strategy =
  eer_clf :: "'m classifier"
  eer_classes :: "real list"
  eer_method :: string
  eer_C :: "matrix option"
  eer_random_state :: random_state
  eer_missing_label :: flt

definition check_matrix :: "matrix \<Rightarrow> error option" where
  "check_matrix M = (if length M = 0 \<or> n_columns M = 0 then Some ValueError else None)"

definition check_vector :: "'a list \<Rightarrow> error option" where
  "check_vector v = (if length v = 0 then Some ValueError else None)"

fun check_random_state :: "random_state \<Rightarrow> random_state" where
  "check_random_state (Seed s) = Generator s 0"
| "check_random_state (Generator s k) = Generator s k"

text \<open>
  \<open>ExpectedErrorReduction.query\<close>, lines 81 to 113. The outcome is the returned
  value (the index array of shape (1,), and the utilities of shape (1, n\_candidates)
  when \<open>return_utilities\<close> is true) or the exception, with the log of the calls of
  \<open>fit\<close> and the strategy object as the call leaves it: line 90 stores the default
  cost matrix in \<open>self.C\<close> and line 100 stores the generator object in
  \<open>self.random_state\<close>, which \<open>rand_argmax\<close> then advances.
\<close>

definition query ::
  "prng \<Rightarrow> (real list \<Rightarrow> flt \<Rightarrow> matrix option \<Rightarrow> error option) \<Rightarrow>
   'm expected_error_reduction_strategy \<Rightarrow> matrix \<Rightarrow> matrix \<Rightarrow> labels \<Rightarrow> bool \<Rightarrow>
   (error + nat list \<times> matrix option) \<times> fit_log \<times> 'm expected_error_reduction_strategy" where
  "query G ccp self X_cand X y return_utilities =
     (if \<not> is_class_frequency_estimator (eer_clf self) then (Inl TypeError, [], self)
      else case ccp (eer_classes self) (eer_missing_label self) (eer_C self) of
        Some e \<Rightarrow> (Inl e, [], self)
      | None \<Rightarrow>
        if clf_classes (eer_clf self) \<noteq> eer_classes self then (Inl ValueError, [], self)
        else
          (let self1 = (case eer_C self of
                          None \<Rightarrow> self\<lparr>eer_C := Some (zero_one_cost (length (eer_classes self)))\<rparr>
                        | Some c \<Rightarrow> self)
           in if eer_method self1 \<notin> set [''emr'', ''csl'', ''log_loss'']
              then (Inl ValueError, [], self1)
              else
                (let self2 = self1\<lparr>eer_random_state := check_random_state (eer_random_state self1)\<rparr>
                 in case check_matrix X_cand of Some e \<Rightarrow> (Inl e, [], self2) | None \<Rightarrow>
                    case check_matrix X of Some e \<Rightarrow> (Inl e, [], self2) | None \<Rightarrow>
                    case check_vector y of Some e \<Rightarrow> (Inl e, [], self2) | None \<Rightarrow>
                    (case expected_error_reduction (eer_clf self2) X_cand X y (eer_classes self2)
                            (eer_C self2) (eer_method self2) of
                       (Inl e, l) \<Rightarrow> (Inl e, l, self2)
                     | (Inr utilities, l) \<Rightarrow>
                         (case rand_choice G (eer_random_state self2)
                                 (tied_positions (map Some utilities)) of
                            Inl e \<Rightarrow> (Inl e, l, self2)
                          | Inr (k, rs') \<Rightarrow>
                              (Inr ([k], if return_utilities then Some [utilities] else None),
                               l, self2\<lparr>eer_random_state := rs'\<rparr>))))))"

text \<open>
  The training sets on which the claim about the refits has the clone fitted: the
  data set itself, then for every candidate and every class \<open>c\<close> of \<open>classes\<close> the
  data set with the candidate and the hypothetical label \<open>c\<close> appended.
\<close>

definition claimed_refits :: "matrix \<Rightarrow> matrix \<Rightarrow> labels \<Rightarrow> real list \<Rightarrow> fit_log" where
  "claimed_refits X_cand X y classes =
     (X, y) # concat (map (\<lambda>x. map (\<lambda>c. (X @ [x], y @ [Some c])) classes) X_cand)"

text \<open>
  The risk of the \<open>csl\<close> method as the spec words it: the cost-weighted posterior of
  the refit model \<open>m\<close>, summed over the labeled samples only, each with the row of \<open>C\<close>
  of its true class.
\<close>

definition class_position :: "real list \<Rightarrow> real \<Rightarrow> nat" where
  "class_position classes v = length (takeWhile (\<lambda>c. c \<noteq> v) classes)"

definition labeled_samples :: "matrix \<Rightarrow> labels \<Rightarrow> flt \<Rightarrow> (real list \<times> flt) list" where
  "labeled_samples X y missing_label = filter (\<lambda>xl. snd xl \<noteq> missing_label) (zip X y)"

definition csl_risk :: "'m classifier \<Rightarrow> 'm \<Rightarrow> matrix \<Rightarrow> labels \<Rightarrow> real list \<Rightarrow> matrix \<Rightarrow> real" where
  "csl_risk clf m X y classes C =
     (let ls = labeled_samples X y (clf_missing_label clf)
      in sum_list (map2 (\<lambda>p xl. sum_list (map2 (*) p (C ! class_position classes (the (snd xl)))))
                     (predict_proba clf m (map fst ls)) ls))"

definition proba_shape :: "matrix \<Rightarrow> nat \<Rightarrow> nat \<Rightarrow> bool" where
  "proba_shape P n c = (length P = n \<and> list_all (\<lambda>p. length p = c) P)"

text \<open>Example objects: a classifier that predicts one half for each of two classes.\<close>

definition example_clf :: "labels classifier" where
  "example_clf =
     \<lparr>is_class_frequency_estimator = True, clf_classes = [0, 1], clf_missing_label = None,
      fit = (\<lambda>X y. y),
      predict_proba = (\<lambda>m Xs. map (\<lambda>x. [1 / 2, 1 / 2]) Xs)\<rparr>"

definition example_strategy :: "labels expected_error_reduction_strategy" where
  "example_strategy =
     \<lparr>eer_clf = example_clf, eer_classes = [0, 1], eer_method = ''csl'', eer_C = None,
      eer_random_state = Seed 0, eer_missing_label = None\<rparr>"

definition accept_params :: "real list \<Rightarrow> flt \<Rightarrow> matrix option \<Rightarrow> error option" where
  "accept_params classes missing_label C = None"

section \<open>Sub-sampling wrapper\<close>

text \<open>
  The three forms of the \<open>candidates\<close> argument, the forms of \<open>max_candidates\<close> (an
  \<open>int\<close>, a \<open>float\<close>, anything else), and the wrapped object: an instance of
  \<open>SingleAnnotatorPoolQueryStrategy\<close> with its \<open>query\<close> method, or something else.
  The inner \<open>query\<close> is an external collaborator: it takes \<open>X\<close>, \<open>y\<close>, \<open>candidates\<close>,
  \<open>batch_size\<close>, \<open>return_utilities\<close> and the further keyword arguments \<open>'k\<close>, and
  returns the indices and the utilities (the utilities are part of its output only
  when \<open>return_utilities\<close> is true) or raises, and emits warnings.
\<close>

datatype candidates = CandNone | CandIndices "nat list" | CandFeatures matrix

datatype max_candidates = MaxInt int | MaxFloat real | MaxOther

type_synonym 'k inner_query =
  "matrix \<Rightarrow> labels \<Rightarrow> candidates \<Rightarrow> nat \<Rightarrow> bool \<Rightarrow> 'k \<Rightarrow>
   (error + nat list \<times> flt list list) \<times> warning list"

datatype 'k query_strategy = NotAQueryStrategy | QueryStrategy "'k inner_query"

record 'k sub_sampling_wrapper =
  sub_query_strategy :: "'k query_strategy"
  sub_max_candidates :: max_candidates
  sub_missing_label :: flt
  sub_random_state :: random_state

text \<open>
  Modelled from the spec: \<open>unlabeled_indices\<close> (skactiveml/utils/\_label.py is not among
  the sources). Spec 4.3: the indices of the rows whose label is the missing label.
\<close>

definition unlabeled_indices :: "labels \<Rightarrow> flt \<Rightarrow> nat list" where
  "unlabeled_indices y missing_label = filter (\<lambda>i. y ! i = missing_label) [0..<length y]"

text \<open>
  A Python \<open>float\<close> is a binary64 number. \<open>binary64_round x\<close> is the binary64 number
  nearest to the real \<open>x\<close>, a tie going to the even significand: the value of the
  float written as \<open>x\<close>, of \<open>float(n)\<close> for an integer \<open>n = x\<close>, and of a float product
  whose exact value is \<open>x\<close>. \<open>binary64_exponent x\<close> is the \<open>e\<close> with
  \<open>2 ^ e \<le> x < 2 ^ (e + 1)\<close> for a positive \<open>x\<close>; the spacing of the numbers around
  \<open>x\<close> is \<open>2 ^ (e - 52)\<close>, with \<open>e\<close> no lower than -1022 (the subnormal numbers).
  Overflow to infinity is not part of the definition: it is that of the format for
  magnitudes below \<open>2 ^ 1024\<close>.
\<close>

definition pow2 :: "int \<Rightarrow> real" where
  "pow2 e = (if 0 \<le> e then 2 ^ nat e else 1 / 2 ^ nat (- e))"

definition round_half_even :: "real \<Rightarrow> int" where
  "round_half_even q =
     (if q - of_int \<lfloor>q\<rfloor> < 1 / 2 then \<lfloor>q\<rfloor>
      else if 1 / 2 < q - of_int \<lfloor>q\<rfloor> then \<lfloor>q\<rfloor> + 1
      else if even \<lfloor>q\<rfloor> then \<lfloor>q\<rfloor> else \<lfloor>q\<rfloor> + 1)"

definition binary64_exponent :: "real \<Rightarrow> int" where
  "binary64_exponent x =
     (if 1 \<le> x then int (floorlog 2 (nat \<lfloor>x\<rfloor>)) - 1
      else - int (floorlog 2 (nat \<lceil>1 / x\<rceil> - 1)))"

definition binary64_ulp :: "real \<Rightarrow> real" where
  "binary64_ulp x = pow2 (max (binary64_exponent \<bar>x\<bar>) (- 1022) - 52)"

definition binary64_round :: "real \<Rightarrow> real" where
  "binary64_round x =
     (if x = 0 then 0
      else of_int (round_half_even (x / binary64_ulp x)) * binary64_ulp x)"

text \<open>
  The two calls of \<open>check_scalar\<close> on \<open>max_candidates\<close>, lines 124 to 146, with the
  bounds the calls give (spec 4.6): an integer below 1 and a float outside (0, 1] are
  a ValueError, another type a TypeError. \<open>MaxFloat f\<close> is the float written as \<open>f\<close>,
  whose value is \<open>binary64_round f\<close>.
\<close>

definition check_max_candidates :: "max_candidates \<Rightarrow> error option" where
  "check_max_candidates mc =
     (case mc of
        MaxInt m \<Rightarrow> (if m < 1 then Some ValueError else None)
      | MaxFloat f \<Rightarrow>
          (if binary64_round f \<le> 0 \<or> 1 < binary64_round f then Some ValueError else None)
      | MaxOther \<Rightarrow> Some TypeError)"

text \<open>
  \<open>random_state.choice(a, size, replace=False)\<close> of numpy: \<open>size\<close> entries of \<open>a\<close> at
  distinct positions, ValueError when \<open>size\<close> exceeds the length of \<open>a\<close>. Each entry
  is picked among the remaining ones by one output of the generator.
\<close>

fun pick_distinct :: "prng \<Rightarrow> random_state \<Rightarrow> 'a list \<Rightarrow> nat \<Rightarrow> 'a list \<times> random_state" where
  "pick_distinct G rs a 0 = ([], rs)"
| "pick_distinct G rs a (Suc n) =
     (if a = [] then ([], rs)
      else (case draw G rs of
              (r, rs') \<Rightarrow>
                (case pick_distinct G rs' (take (r mod length a) a @ drop (Suc (r mod length a)) a) n of
                   (rest, rs'') \<Rightarrow> (a ! (r mod length a) # rest, rs''))))"

definition choice :: "prng \<Rightarrow> random_state \<Rightarrow> 'a list \<Rightarrow> int \<Rightarrow> error + 'a list" where
  "choice G rs a size' =
     (if size' < 0 \<or> int (length a) < size' then Inl ValueError
      else Inr (fst (pick_distinct G rs a (nat size'))))"

text \<open>
  Lines 149 to 174: the number of candidates to draw and the sub-sample. The result is
  \<open>new_candidates\<close> and, for candidates given as a feature matrix,
  \<open>new_candidate_indices\<close>. \<open>pool_size\<close> is the size of the resolved candidate pool.
  For a float, the number is the ceiling of the float product
  \<open>len(candidates) * max_candidates\<close>: the length converted to a float, times the
  float, rounded to a float.
\<close>

definition pool_size :: "candidates \<Rightarrow> labels \<Rightarrow> flt \<Rightarrow> nat" where
  "pool_size candidates y missing_label =
     (case candidates of
        CandNone \<Rightarrow> length (unlabeled_indices y missing_label)
      | CandIndices c \<Rightarrow> length c
      | CandFeatures F \<Rightarrow> length F)"

definition n_to_draw :: "max_candidates \<Rightarrow> nat \<Rightarrow> int" where
  "n_to_draw mc n =
     (case mc of
        MaxInt m \<Rightarrow> min m (int n)
      | MaxFloat f \<Rightarrow>
          min \<lceil>binary64_round (binary64_round (real n) * binary64_round f)\<rceil> (int n)
      | MaxOther \<Rightarrow> int n)"

definition sub_sample ::
  "prng \<Rightarrow> random_state \<Rightarrow> max_candidates \<Rightarrow> candidates \<Rightarrow> labels \<Rightarrow> flt \<Rightarrow>
   error + candidates \<times> nat list" where
  "sub_sample G rs mc candidates y missing_label =
     (case candidates of
        CandNone \<Rightarrow>
          (let candidate_indices = unlabeled_indices y missing_label
           in case choice G rs candidate_indices (n_to_draw mc (length candidate_indices)) of
                Inl e \<Rightarrow> Inl e
              | Inr new_candidates \<Rightarrow> Inr (CandIndices new_candidates, []))
      | CandIndices c \<Rightarrow>
          (case choice G rs c (n_to_draw mc (length c)) of
             Inl e \<Rightarrow> Inl e
           | Inr new_candidates \<Rightarrow> Inr (CandIndices new_candidates, []))
      | CandFeatures F \<Rightarrow>
          (case choice G rs [0..<length F] (n_to_draw mc (length F)) of
             Inl e \<Rightarrow> Inl e
           | Inr new_candidate_indices \<Rightarrow>
               Inr (CandFeatures (map (\<lambda>i. F ! i) new_candidate_indices), new_candidate_indices)))"

text \<open>
  Lines 185 to 201, numpy's part: \<open>new_candidate_indices[qs_output]\<close> (IndexError out of
  range), and the assignment \<open>new_utilities[:, new_candidate_indices] = utilities\<close>
  into an array of shape \<open>(batch_size, len(candidates))\<close> full of \<open>NaN\<close>, where
  \<open>utilities\<close> is broadcast to the shape \<open>(batch_size, len(new_candidate_indices))\<close>
  (an axis of length 1 is repeated; ValueError for any other mismatch).
\<close>

definition take_items :: "nat list \<Rightarrow> nat list \<Rightarrow> error + nat list" where
  "take_items a ks =
     (if list_all (\<lambda>k. k < length a) ks then Inr (map (\<lambda>k. a ! k) ks) else Inl IndexError)"

definition broadcast_axis :: "'a list \<Rightarrow> nat \<Rightarrow> error + 'a list" where
  "broadcast_axis xs n =
     (if length xs = n then Inr xs
      else if length xs = 1 then Inr (replicate n (hd xs))
      else Inl ValueError)"

definition broadcast_to :: "flt list list \<Rightarrow> nat \<Rightarrow> nat \<Rightarrow> error + flt list list" where
  "broadcast_to u b n =
     (case each_or_error (\<lambda>row. broadcast_axis row n) u of
        Inl e \<Rightarrow> Inl e
      | Inr rows \<Rightarrow> broadcast_axis rows b)"

definition scatter :: "nat list \<Rightarrow> flt list \<Rightarrow> nat \<Rightarrow> flt list" where
  "scatter idx row k = fold (\<lambda>iv acc. acc[fst iv := snd iv]) (zip idx row) (replicate k None)"

definition embed_utilities ::
  "flt list list \<Rightarrow> nat list \<Rightarrow> nat \<Rightarrow> nat \<Rightarrow> error + flt list list" where
  "embed_utilities utilities new_candidate_indices batch_size k =
     (case broadcast_to utilities batch_size (length new_candidate_indices) of
        Inl e \<Rightarrow> Inl e
      | Inr u \<Rightarrow> Inr (map (\<lambda>row. scatter new_candidate_indices row k) u))"

text \<open>
  \<open>SubSamplingWrapper.query\<close>, lines 110 to 201. Not among the sources and taken as
  parameters: \<open>validate\<close> is \<open>_validate_data\<close> of the base class, returning the validated
  arguments or raising, with the warnings it emits; \<open>derive\<close> is the seed that
  \<open>check_random_state(self.random_state, seed_multiplier)\<close> gives the call-local
  generator. The decorator \<open>match_signature\<close> is not modelled. The outcome is the
  returned value (the utilities are \<open>None\<close> when \<open>return_utilities\<close> is false) or the
  exception, with all warnings emitted during the call.
\<close>

definition sub_sampling_query ::
  "prng \<Rightarrow> (random_state \<Rightarrow> nat \<Rightarrow> nat) \<Rightarrow>
   (matrix \<Rightarrow> labels \<Rightarrow> candidates \<Rightarrow> int \<Rightarrow> bool \<Rightarrow>
      (error + matrix \<times> labels \<times> candidates \<times> nat \<times> bool) \<times> warning list) \<Rightarrow>
   'k sub_sampling_wrapper \<Rightarrow> matrix \<Rightarrow> labels \<Rightarrow> candidates \<Rightarrow> int \<Rightarrow> bool \<Rightarrow> 'k \<Rightarrow>
   (error + nat list \<times> flt list list option) \<times> warning list" where
  "sub_sampling_query G derive validate self X0 y0 candidates0 batch_size0 return_utilities0 query_kwargs =
     (case validate X0 y0 candidates0 batch_size0 return_utilities0 of
        (Inl e, ws) \<Rightarrow> (Inl e, ws)
      | (Inr (X, y, candidates, batch_size, return_utilities), ws) \<Rightarrow>
          (case sub_query_strategy self of
             NotAQueryStrategy \<Rightarrow> (Inl TypeError, ws)
           | QueryStrategy inner \<Rightarrow>
               (let seed_multiplier =
                      length (filter (\<lambda>b. b) (is_labeled y (sub_missing_label self))) + 1
                in case check_max_candidates (sub_max_candidates self) of
                     Some e \<Rightarrow> (Inl e, ws)
                   | None \<Rightarrow>
                       (let random_state = Generator (derive (sub_random_state self) seed_multiplier) 0
                        in case sub_sample G random_state (sub_max_candidates self) candidates y
                                  (sub_missing_label self) of
                             Inl e \<Rightarrow> (Inl e, ws)
                           | Inr (new_candidates, new_candidate_indices) \<Rightarrow>
                               (case inner X y new_candidates batch_size return_utilities query_kwargs of
                                  (Inl e, ws') \<Rightarrow> (Inl e, ws @ ws')
                                | (Inr (queried_indices, utilities), ws') \<Rightarrow>
                                    (case candidates of
                                       CandFeatures F \<Rightarrow>
                                         (if \<not> return_utilities then
                                            (case take_items new_candidate_indices queried_indices of
                                               Inl e \<Rightarrow> (Inl e, ws @ ws')
                                             | Inr q \<Rightarrow> (Inr (q, None), ws @ ws'))
                                          else
                                            (case embed_utilities utilities new_candidate_indices
                                                    batch_size (length F) of
                                               Inl e \<Rightarrow> (Inl e, ws @ ws')
                                             | Inr new_utilities \<Rightarrow>
                                                 (case take_items new_candidate_indices queried_indices of
                                                    Inl e \<Rightarrow> (Inl e, ws @ ws')
                                                  | Inr q \<Rightarrow> (Inr (q, Some new_utilities), ws @ ws'))))
                                     | _ \<Rightarrow>
                                         (Inr (queried_indices,
                                               if return_utilities then Some utilities else None),
                                          ws @ ws')))))))"

text \<open>
  The candidates of a pool or of a sub-sample as one list: an index into \<open>X\<close> or a row
  of features.
\<close>

definition candidate_items :: "candidates \<Rightarrow> labels \<Rightarrow> flt \<Rightarrow> (nat + real list) list" where
  "candidate_items candidates y missing_label =
     (case candidates of
        CandNone \<Rightarrow> map Inl (unlabeled_indices y missing_label)
      | CandIndices c \<Rightarrow> map Inl c
      | CandFeatures F \<Rightarrow> map Inr F)"

text \<open>
  Example objects: an inner strategy that scores a candidate by its first feature and
  reduces the scores with \<open>simple_batch\<close>, a validation that accepts its arguments, a
  derivation of the call-local seed, and a wrapper around the inner strategy.
\<close>

definition first_feature_strategy :: "unit inner_query" where
  "first_feature_strategy X y candidates batch_size return_utilities kw =
     (case candidates of
        CandFeatures F \<Rightarrow>
          (case simple_batch example_prng Float64
                  \<lparr>shape = [length F], data = map (\<lambda>x. Some (hd x)) F\<rparr>
                  (Seed 0) (int batch_size) True of
             Inl e \<Rightarrow> (Inl e, [])
           | Inr out \<Rightarrow>
               ((case best_indices out of
                   Index1D q \<Rightarrow>
                     Inr (q, map (\<lambda>k. data (history_row (the (batch_utilities out)) k)) [0..<length q])
                 | IndexND q \<Rightarrow> Inl TypeError),
                warnings out))
      | _ \<Rightarrow> (Inl TypeError, []))"

definition accept_data ::
  "matrix \<Rightarrow> labels \<Rightarrow> candidates \<Rightarrow> int \<Rightarrow> bool \<Rightarrow>
   (error + matrix \<times> labels \<times> candidates \<times> nat \<times> bool) \<times> warning list" where
  "accept_data X y candidates batch_size return_utilities =
     (Inr (X, y, candidates, nat batch_size, return_utilities), [])"

definition example_derive :: "random_state \<Rightarrow> nat \<Rightarrow> nat" where
  "example_derive rs seed_multiplier =
     (case rs of Seed s \<Rightarrow> s * seed_multiplier | Generator s k \<Rightarrow> (s + k) * seed_multiplier)"

definition example_wrapper :: "unit sub_sampling_wrapper" where
  "example_wrapper =
     \<lparr>sub_query_strategy = QueryStrategy first_feature_strategy,
      sub_max_candidates = MaxInt 2, sub_missing_label = None, sub_random_state = Seed 1\<rparr>"

definition example_pool :: candidates where
  "example_pool = CandFeatures [[3], [1], [2], [7]]"

section \<open>Core-Set (k-greedy-center)\<close>

text \<open>
  Modelled from the spec: \<open>CoreSet.query\<close> and \<open>k_greedy_center\<close>
  (skactiveml/pool/\_core\_set.py is not among the sources; only its tests are). Spec
  4.5: the utility of a candidate is the distance to its nearest reference point, the
  reference points being the labeled samples and the candidates already selected in
  this batch; the candidate of maximum utility is selected (ties broken as in 4.1),
  joins the reference set and is \<open>NaN\<close> in the rows that follow. Positions that are
  no candidates are \<open>NaN\<close> (spec 3). Spec 4.3 resolves the candidates; spec 7 clips a
  batch size larger than the pool with a warning; any \<open>method\<close> other than
  \<open>greedy\<close> is a ValueError. The distance is the Euclidean one. With no reference
  point at all (no labeled sample, first selection) the spec gives no value: the
  nearest distance is then the infimum over no point, \<open>Far\<close>, above every number.
\<close>

datatype distance = Dist real | Far

instantiation distance :: linorder
begin

fun less_eq_distance :: "distance \<Rightarrow> distance \<Rightarrow> bool" where
  "less_eq_distance (Dist a) (Dist b) = (a \<le> b)"
| "less_eq_distance a Far = True"
| "less_eq_distance Far (Dist b) = False"

definition less_distance :: "distance \<Rightarrow> distance \<Rightarrow> bool" where
  "less_distance a b = (a \<le> b \<and> \<not> b \<le> a)"

instance
proof
  fix x y z :: distance
  show "(x < y) = (x \<le> y \<and> \<not> y \<le> x)" by (simp add: less_distance_def)
  show "x \<le> x" by (cases x) auto
  show "x \<le> y \<Longrightarrow> y \<le> z \<Longrightarrow> x \<le> z" by (cases x; cases y; cases z) auto
  show "x \<le> y \<Longrightarrow> y \<le> x \<Longrightarrow> x = y" by (cases x; cases y) auto
  show "x \<le> y \<or> y \<le> x" by (cases x; cases y) auto
qed

end

definition euclidean :: "real list \<Rightarrow> real list \<Rightarrow> real" where
  "euclidean a b = sqrt (sum_list (map2 (\<lambda>u v. (u - v)\<^sup>2) a b))"

text \<open>
  The square root has no code equation; in evaluation the distance of a point to
  itself is 0 (\<open>euclidean_code\<close>).
\<close>

declare root_def [code del]

definition nearest :: "matrix \<Rightarrow> real list \<Rightarrow> distance" where
  "nearest refs x =
     (case refs of
        [] \<Rightarrow> Far
      | r # rs \<Rightarrow> Dist (fold min (map (euclidean x) rs) (euclidean x r)))"

definition core_set_utilities :: "matrix \<Rightarrow> matrix \<Rightarrow> nat list \<Rightarrow> nat list \<Rightarrow> distance option list" where
  "core_set_utilities points refs eligible selected =
     map (\<lambda>i. if i \<in> set eligible \<and> i \<notin> set selected then Some (nearest refs (points ! i)) else None)
       [0..<length points]"

fun greedy_loop ::
  "prng \<Rightarrow> nat \<Rightarrow> matrix \<Rightarrow> matrix \<Rightarrow> nat list \<Rightarrow> nat list \<Rightarrow> random_state \<Rightarrow>
   error + nat list \<times> distance option list list \<times> random_state" where
  "greedy_loop G 0 points refs eligible selected rs = Inr ([], [], rs)"
| "greedy_loop G (Suc n) points refs eligible selected rs =
     (case rand_argmax G \<lparr>shape = [length points],
                          data = core_set_utilities points refs eligible selected\<rparr> rs of
        Inl e \<Rightarrow> Inl e
      | Inr (idx, rs') \<Rightarrow>
          (case idx of
             [k] \<Rightarrow>
               (case greedy_loop G n points (refs @ [points ! k]) eligible (selected @ [k]) rs' of
                  Inl e \<Rightarrow> Inl e
                | Inr (q, us, rsf) \<Rightarrow>
                    Inr (k # q, core_set_utilities points refs eligible selected # us, rsf))
           | _ \<Rightarrow> Inl IndexError))"

record core_set =
  cs_method :: string
  cs_missing_label :: flt
  cs_random_state :: random_state

definition core_set_query ::
  "prng \<Rightarrow> core_set \<Rightarrow> matrix \<Rightarrow> labels \<Rightarrow> candidates \<Rightarrow> int \<Rightarrow>
   (error + nat list \<times> distance option list list) \<times> warning list" where
  "core_set_query G self X y candidates batch_size =
     (if cs_method self \<noteq> ''greedy'' then (Inl ValueError, [])
      else if length X \<noteq> length y then (Inl ValueError, [])
      else
        (case check_scalar_int batch_size 1 of
           Some e \<Rightarrow> (Inl e, [])
         | None \<Rightarrow>
             (let refs = map fst (labeled_samples X y (cs_missing_label self));
                  points = (case candidates of CandFeatures F \<Rightarrow> F | _ \<Rightarrow> X);
                  eligible = (case candidates of
                                CandNone \<Rightarrow> unlabeled_indices y (cs_missing_label self)
                              | CandIndices c \<Rightarrow> c
                              | CandFeatures F \<Rightarrow> [0..<length F]);
                  n_candidates = length (filter (\<lambda>i. i \<in> set eligible) [0..<length points]);
                  clipped = (int n_candidates < batch_size);
                  b = (if clipped then n_candidates else nat batch_size);
                  ws = (if clipped then [BatchSizeClipped batch_size n_candidates] else [])
              in case greedy_loop G b points refs eligible [] (cs_random_state self) of
                   Inl e \<Rightarrow> (Inl e, ws)
                 | Inr (q, us, rsf) \<Rightarrow> (Inr (q, us), ws))))"

text \<open>A utility is admissible when it is \<open>NaN\<close>, a number that is not negative, or \<open>Far\<close>.\<close>

fun not_negative :: "distance option \<Rightarrow> bool" where
  "not_negative None = True"
| "not_negative (Some (Dist d)) = (0 \<le> d)"
| "not_negative (Some Far) = True"

definition example_core_set :: core_set where
  "example_core_set = \<lparr>cs_method = ''greedy'', cs_missing_label = None, cs_random_state = Seed 42\<rparr>"

definition identical_rows :: matrix where
  "identical_rows = [[1, 1], [1, 1], [1, 1]]"

section \<open>Properties of the batch reduction engine\<close>

lemma prod_list_pos_of_less: "k < d * (p::nat) \<Longrightarrow> 0 < p"
  by (cases p) auto

lemma unravel_in_bounds: "k < prod_list ds \<Longrightarrow> in_bounds (unravel_index k ds) ds"
proof (induction ds arbitrary: k)
  case Nil
  then show ?case by simp
next
  case (Cons d ds)
  from Cons.prems have lt: "k < d * prod_list ds" by simp
  then have pos: "0 < prod_list ds" by (rule prod_list_pos_of_less)
  from lt have "k div prod_list ds < d"
    by (simp add: less_mult_imp_div_less)
  moreover from pos have "k mod prod_list ds < prod_list ds" by simp
  ultimately show ?case using Cons.IH by simp
qed

lemma flat_unravel: "k < prod_list ds \<Longrightarrow> flat_index (unravel_index k ds) ds = k"
proof (induction ds arbitrary: k)
  case Nil
  then show ?case by simp
next
  case (Cons d ds)
  from Cons.prems have "k < d * prod_list ds" by simp
  then have pos: "0 < prod_list ds" by (rule prod_list_pos_of_less)
  then have "k mod prod_list ds < prod_list ds" by simp
  then have "flat_index (unravel_index (k mod prod_list ds) ds) ds = k mod prod_list ds"
    by (rule Cons.IH)
  then show ?case by simp
qed

lemma unravel_inj:
  assumes "j < prod_list ds" "k < prod_list ds" "unravel_index j ds = unravel_index k ds"
  shows "j = k"
  using assms flat_unravel by metis

lemma length_nan_at [simp]: "length (nan_at ks xs) = length xs"
  unfolding nan_at_def by (induction ks arbitrary: xs) auto

lemma nan_at_Nil [simp]: "nan_at [] xs = xs"
  by (simp add: nan_at_def)

lemma nan_at_Cons [simp]: "nan_at (k # ks) xs = nan_at ks (xs[k := None])"
  by (simp add: nan_at_def)

lemma nth_nan_at:
  "i < length xs \<Longrightarrow> nan_at ks xs ! i = (if i \<in> set ks then None else xs ! i)"
proof (induction ks arbitrary: xs)
  case Nil
  then show ?case by simp
next
  case (Cons k ks)
  then show ?case by (auto simp: nth_list_update)
qed

lemma fold_max_in: "fold max vs (v::'a::linorder) \<in> set (v # vs)"
proof -
  have "Max (set (v # vs)) \<in> set (v # vs)" by (rule Max_in) auto
  then show ?thesis by (simp only: Max.set_eq_fold)
qed

lemma nan_max_Some_in: "nan_max xs = Some m \<Longrightarrow> Some m \<in> set xs"
proof -
  assume a: "nan_max xs = Some m"
  then obtain v vs where vs: "map the (filter (\<lambda>x. x \<noteq> None) xs) = v # vs" and m: "m = fold max vs v"
    by (auto simp: nan_max_def split: list.splits)
  have "m \<in> set (map the (filter (\<lambda>x. x \<noteq> None) xs))"
    using fold_max_in[of vs v] m vs by simp
  then obtain x where "x \<in> set xs" "x \<noteq> None" "m = the x" by auto
  then show ?thesis by (cases x) auto
qed

lemma nan_max_None_iff: "nan_max xs = None \<longleftrightarrow> count_not_nan xs = 0"
  by (auto simp: nan_max_def count_not_nan_def split: list.splits)

lemma tied_positions_sound:
  "k \<in> set (tied_positions xs) \<Longrightarrow> k < length xs \<and> xs ! k \<noteq> None"
  by (auto simp: tied_positions_def split: option.splits)

lemma tied_positions_nonempty:
  assumes "0 < count_not_nan xs"
  shows "tied_positions xs \<noteq> []"
proof -
  from assms obtain m where m: "nan_max xs = Some m"
    using nan_max_None_iff[of xs] by (cases "nan_max xs") auto
  then have "Some m \<in> set xs" by (rule nan_max_Some_in)
  then obtain i where "i < length xs" "xs ! i = Some m" by (auto simp: in_set_conv_nth)
  then have "i \<in> set (tied_positions xs)" using m by (auto simp: tied_positions_def)
  then show ?thesis by auto
qed

lemma rand_choice_Inr:
  "rand_choice G rs ts = Inr (k, rs') \<Longrightarrow> k \<in> set ts \<and> rs' = snd (draw G rs)"
proof -
  assume a: "rand_choice G rs ts = Inr (k, rs')"
  then obtain t ts' where ts: "ts = t # ts'" by (cases ts) (auto simp: rand_choice_def)
  obtain r rs2 where d: "draw G rs = (r, rs2)" by (cases "draw G rs")
  from a ts d have k: "k = ts ! (r mod length ts)" and "rs' = rs2"
    by (auto simp: rand_choice_def)
  have "r mod length ts < length ts" using ts by simp
  then have "ts ! (r mod length ts) \<in> set ts" by (rule nth_mem)
  then show ?thesis using k d \<open>rs' = rs2\<close> by simp
qed

lemma rand_choice_succeeds:
  "ts \<noteq> [] \<Longrightarrow> \<exists>k rs'. rand_choice G rs ts = Inr (k, rs')"
  by (cases ts; cases "draw G rs") (auto simp: rand_choice_def)

lemma rand_argmax_Inr:
  assumes "rand_argmax G a rs = Inr (idx, rs')"
  shows "\<exists>k. idx = unravel_index k (shape a) \<and> k < length (data a) \<and> data a ! k \<noteq> None"
proof -
  from assms obtain k where c: "rand_choice G rs (tied_positions (data a)) = Inr (k, rs')"
    and idx: "idx = unravel_index k (shape a)"
    by (auto simp: rand_argmax_def split: sum.splits)
  from c have "k \<in> set (tied_positions (data a))" by (auto dest: rand_choice_Inr)
  then show ?thesis using idx tied_positions_sound by blast
qed

lemma rand_argmax_succeeds:
  assumes "0 < count_not_nan (data a)"
  shows "\<exists>idx rs'. rand_argmax G a rs = Inr (idx, rs')"
proof -
  from assms have "tied_positions (data a) \<noteq> []" by (rule tied_positions_nonempty)
  then obtain k rs' where "rand_choice G rs (tied_positions (data a)) = Inr (k, rs')"
    using rand_choice_succeeds by blast
  then show ?thesis by (simp add: rand_argmax_def)
qed


lemma setitem_unravel:
  assumes "wf_ndarray a" "k < length (data a)"
  shows "setitem a (unravel_index k (shape a)) v = Inr (a\<lparr>data := (data a)[k := v]\<rparr>)"
  using assms by (simp add: setitem_def wf_ndarray_def unravel_in_bounds flat_unravel)

lemma getitem_unravel:
  assumes "length (data a) = prod_list (shape a)" "k < length (data a)"
  shows "getitem a (unravel_index k (shape a)) = Inr (data a ! k)"
  using assms by (simp add: getitem_def unravel_in_bounds flat_unravel)


lemma batch_loop_result:
  "wf_ndarray u \<Longrightarrow> batch_loop G n u rs = Inr (idxs, rows, uf, rsf) \<Longrightarrow>
   \<exists>ks. length ks = n \<and> idxs = map (\<lambda>k. unravel_index k (shape u)) ks \<and> distinct ks \<and>
        (\<forall>k\<in>set ks. k < length (data u) \<and> data u ! k \<noteq> None) \<and>
        shape uf = shape u \<and> data uf = nan_at ks (data u) \<and>
        length rows = n \<and> (\<forall>j<n. rows ! j = nan_at (take j ks) (data u))"
proof (induction n arbitrary: u rs idxs rows uf rsf)
  case 0
  then show ?case by simp
next
  case (Suc n)
  from Suc.prems(2) obtain idx rs' where ra: "rand_argmax G u rs = Inr (idx, rs')"
    by (auto split: sum.splits)
  then obtain k where k: "idx = unravel_index k (shape u)" "k < length (data u)" "data u ! k \<noteq> None"
    using rand_argmax_Inr by blast
  let ?u' = "u\<lparr>data := (data u)[k := None]\<rparr>"
  have si: "setitem u idx None = Inr ?u'" using Suc.prems(1) k by (simp add: setitem_unravel)
  have wf': "wf_ndarray ?u'" using Suc.prems(1) by (simp add: wf_ndarray_def)
  from Suc.prems(2) ra si obtain idxs' rows' where
    rec: "batch_loop G n ?u' rs' = Inr (idxs', rows', uf, rsf)"
    and idxs: "idxs = idx # idxs'" and rows: "rows = data u # rows'"
    by (auto split: sum.splits)
  from Suc.IH[OF wf' rec] obtain ks where ks:
    "length ks = n" "idxs' = map (\<lambda>k. unravel_index k (shape ?u')) ks" "distinct ks"
    "\<forall>j\<in>set ks. j < length (data ?u') \<and> data ?u' ! j \<noteq> None"
    "shape uf = shape ?u'" "data uf = nan_at ks (data ?u')"
    "length rows' = n" "\<forall>j<n. rows' ! j = nan_at (take j ks) (data ?u')"
    by blast
  have knot: "k \<notin> set ks"
  proof
    assume "k \<in> set ks"
    with ks(4) have "data ?u' ! k \<noteq> None" by blast
    with k(2) show False by simp
  qed
  have mem: "\<forall>j\<in>set (k # ks). j < length (data u) \<and> data u ! j \<noteq> None"
  proof
    fix j assume "j \<in> set (k # ks)"
    then consider "j = k" | "j \<in> set ks" "j \<noteq> k" using knot by auto
    then show "j < length (data u) \<and> data u ! j \<noteq> None"
    proof cases
      case 1
      then show ?thesis using k by simp
    next
      case 2
      with ks(4) have "j < length (data u)" "(data u)[k := None] ! j \<noteq> None" by auto
      then show ?thesis using 2 by (simp add: nth_list_update)
    qed
  qed
  have rws: "\<forall>j<Suc n. rows ! j = nan_at (take j (k # ks)) (data u)"
  proof (intro allI impI)
    fix j assume "j < Suc n"
    then show "rows ! j = nan_at (take j (k # ks)) (data u)"
      using rows ks(8) by (cases j) auto
  qed
  show ?case
    apply (rule exI[of _ "k # ks"])
    using ks(1,2,3,5,6,7) knot mem rws idxs k(1) rows by simp
qed

lemma unravel_1d [simp]: "unravel_index k [d] = [k]"
  by simp

lemma take_drop_concat_row:
  "\<forall>r\<in>set rows. length r = p \<Longrightarrow> k < length rows \<Longrightarrow>
   take p (drop (k * p) (concat rows)) = rows ! k"
proof (induction rows arbitrary: k)
  case Nil
  then show ?case by simp
next
  case (Cons r rows)
  show ?case
  proof (cases k)
    case 0
    then show ?thesis using Cons.prems by simp
  next
    case (Suc j)
    then have "take p (drop (j * p) (concat rows)) = rows ! j"
      using Cons.prems by (intro Cons.IH) auto
    then show ?thesis using Suc Cons.prems(1) by simp
  qed
qed

lemma simple_batch_Inr:
  assumes "simple_batch G dt u rs b r = Inr out"
  obtains idxs rows uf where
    "check_array u = Inr u"
    "1 \<le> b"
    "batch_loop G (if int (count_not_nan (data u)) < b then count_not_nan (data u) else nat b) u rs
       = Inr (idxs, rows, uf, random_state_after out)"
    "utilities_after out = (if is_converted_copy dt then u else uf)"
    "best_indices out = (if length (shape u) = 1 then Index1D (concat idxs) else IndexND idxs)"
    "batch_utilities out =
       (if r then Some \<lparr>shape = (if int (count_not_nan (data u)) < b then count_not_nan (data u) else nat b) # shape u,
                        data = concat rows\<rparr> else None)"
    "warnings out = (if int (count_not_nan (data u)) < b
                     then [BatchSizeClipped b (count_not_nan (data u))] else [])"
proof -
  from assms have ca: "check_array u = Inr u"
    by (auto simp: simple_batch_def check_array_def split: sum.splits list.splits if_splits)
  from assms ca have b1: "1 \<le> b"
    by (auto simp: simple_batch_def check_scalar_int_def split: if_splits)
  let ?n = "if int (count_not_nan (data u)) < b then count_not_nan (data u) else nat b"
  from assms ca b1 obtain idxs rows uf rsf where
    bl: "batch_loop G ?n u rs = Inr (idxs, rows, uf, rsf)"
    by (simp add: simple_batch_def check_scalar_int_def Let_def split: sum.splits prod.splits) 
  with assms ca b1 have out: "out = \<lparr>best_indices =
                              (if length (shape u) = 1 then Index1D (concat idxs)
                               else IndexND idxs),
                            batch_utilities =
                              (if r
                               then Some \<lparr>shape = ?n # shape u, data = concat rows\<rparr>
                               else None),
                            warnings =
                              (if int (count_not_nan (data u)) < b then [BatchSizeClipped b (count_not_nan (data u))]
                               else []),
                            utilities_after = (if is_converted_copy dt then u else uf),
                            random_state_after = rsf\<rparr>"
    by (simp add: simple_batch_def check_scalar_int_def Let_def)
  show ?thesis
    by (rule that[OF ca b1, of idxs rows uf]) (use bl out in simp_all)
qed

lemma index_rows_unravel:
  "idxs = map (\<lambda>k. unravel_index k sh) ks \<Longrightarrow>
   index_rows (if length sh = 1 then Index1D (concat idxs) else IndexND idxs) = idxs"
proof (cases "length sh = 1")
  case True
  assume i: "idxs = map (\<lambda>k. unravel_index k sh) ks"
  from True obtain d where "sh = [d]" by (cases sh) auto
  with i have "idxs = map (\<lambda>k. [k]) ks" by simp
  moreover have "concat (map (\<lambda>k. [k]) ks) = ks" by (induction ks) auto
  ultimately show ?thesis using True by simp
next
  case False
  then show ?thesis by simp
qed


text \<open>
  Claim C2. Whatever the utilities array, the batch size and the random source, a call
  of \<open>simple_batch\<close> that returns has selected pairwise distinct indices, and in the
  utility history every row \<open>k\<close> holds \<open>NaN\<close> at each index selected at an earlier
  batch position \<open>j < k\<close>. (That the call returns for every valid batch size is part
  of \<open>simple_batch_returns\<close>.)
\<close>

theorem simple_batch_no_double_selection:
  assumes "wf_ndarray u" and "simple_batch G dt u rs b r = Inr out"
  shows "distinct (index_rows (best_indices out)) \<and>
         (\<exists>h. batch_utilities out = (if r then Some h else None) \<and>
              shape h = length (index_rows (best_indices out)) # shape u \<and>
              (\<forall>k<length (index_rows (best_indices out)). \<forall>j<k.
                 getitem (history_row h k) (index_rows (best_indices out) ! j) = Inr None))"
proof -
  let ?n = "if int (count_not_nan (data u)) < b then count_not_nan (data u) else nat b"
  from assms(2) obtain idxs rows uf where
    bl: "batch_loop G ?n u rs = Inr (idxs, rows, uf, random_state_after out)"
    and bi: "best_indices out = (if length (shape u) = 1 then Index1D (concat idxs) else IndexND idxs)"
    and bu: "batch_utilities out = (if r then Some \<lparr>shape = ?n # shape u, data = concat rows\<rparr> else None)"
    by (rule simple_batch_Inr)
  from batch_loop_result[OF assms(1) bl] obtain ks where ks:
    "length ks = ?n" "idxs = map (\<lambda>k. unravel_index k (shape u)) ks" "distinct ks"
    "\<forall>k\<in>set ks. k < length (data u) \<and> data u ! k \<noteq> None"
    "length rows = ?n" "\<forall>j<?n. rows ! j = nan_at (take j ks) (data u)"
    by blast
  have ir: "index_rows (best_indices out) = idxs"
    using bi index_rows_unravel[OF ks(2)] by simp
  have len: "length (data u) = prod_list (shape u)" using assms(1) by (simp add: wf_ndarray_def)
  have "inj_on (\<lambda>k. unravel_index k (shape u)) (set ks)"
  proof (rule inj_onI)
    fix x y assume "x \<in> set ks" "y \<in> set ks" "unravel_index x (shape u) = unravel_index y (shape u)"
    then show "x = y" using ks(4) len unravel_inj[of x "shape u" y] by auto
  qed
  then have d: "distinct idxs" using ks(2,3) by (simp add: distinct_map)
  let ?h = "\<lparr>shape = ?n # shape u, data = concat rows\<rparr>"
  have rowlen: "\<forall>r\<in>set rows. length r = prod_list (shape u)"
  proof
    fix x assume "x \<in> set rows"
    then obtain j where "j < length rows" "x = rows ! j" by (auto simp: in_set_conv_nth)
    then show "length x = prod_list (shape u)" using ks(5,6) len by simp
  qed
  have hist: "\<forall>k<length idxs. \<forall>j<k. getitem (history_row ?h k) (idxs ! j) = Inr None"
  proof (intro allI impI)
    fix k j assume k: "k < length idxs" and j: "j < k"
    from k ks(1,2) have kn: "k < ?n" by simp
    then have "k < length rows" using ks(5) by simp
    then have hr: "history_row ?h k = \<lparr>shape = shape u, data = rows ! k\<rparr>"
      using take_drop_concat_row[OF rowlen] by (simp add: history_row_def)
    have rk: "rows ! k = nan_at (take k ks) (data u)" using ks(6) kn by blast
    have jl: "j < length ks" using j kn ks(1) by simp
    then have kj: "ks ! j < length (data u)" using ks(4) by simp
    have "ks ! j \<in> set (take k ks)" using j jl by (auto simp: in_set_conv_nth intro!: exI[of _ j])
    then have "nan_at (take k ks) (data u) ! (ks ! j) = None" using kj by (simp add: nth_nan_at)
    moreover have "idxs ! j = unravel_index (ks ! j) (shape u)" using ks(2) jl by simp
    ultimately show "getitem (history_row ?h k) (idxs ! j) = Inr None"
      using hr rk kj len getitem_unravel[of "\<lparr>shape = shape u, data = rows ! k\<rparr>" "ks ! j"] by simp
  qed
  have "length idxs = ?n" using ks(1,2) by simp
  then show ?thesis using d hist ir bu
    by (intro conjI exI[of _ ?h]) simp_all
qed

lemma example_utilities_wf: "wf_ndarray example_utilities"
  by code_simp

lemma example_batch_eval:
  "simple_batch example_prng Float64 example_utilities (Generator 0 0) 2 True = Inr example_batch"
  by code_simp

text \<open>
  A 2 x 2 array with one \<open>NaN\<close> and a tie for the maximum, batch size 2.
\<close>

theorem simple_batch_no_double_selection_witness:
  "wf_ndarray example_utilities \<and>
   simple_batch example_prng Float64 example_utilities (Generator 0 0) 2 True = Inr example_batch \<and>
   index_rows (best_indices example_batch) = [[1, 0], [1, 1]] \<and>
   distinct (index_rows (best_indices example_batch)) \<and>
   getitem (history_row (the (batch_utilities example_batch)) 1) [1, 0] = Inr None"
proof -
  from simple_batch_no_double_selection[OF example_utilities_wf example_batch_eval]
  have "distinct (index_rows (best_indices example_batch))" by simp
  moreover have "index_rows (best_indices example_batch) = [[1, 0], [1, 1]]"
    by code_simp
  moreover have "getitem (history_row (the (batch_utilities example_batch)) 1) [1, 0] = Inr None"
    by code_simp
  ultimately show ?thesis using example_utilities_wf example_batch_eval by simp
qed






section \<open>Properties of Expected Error Reduction\<close>

lemma for_each_Inr:
  "for_each f xs = (Inr bs, l) \<Longrightarrow>
   bs = map (\<lambda>x. projr (fst (f x))) xs \<and> l = concat (map (\<lambda>x. snd (f x)) xs) \<and>
   (\<forall>x\<in>set xs. isl (fst (f x)) = False)"
proof (induction xs arbitrary: bs l)
  case Nil
  then show ?case by simp
next
  case (Cons a as)
  from Cons.prems obtain b la where fa: "f a = (Inr b, la)"
    by (cases "f a"; cases "fst (f a)") (auto split: sum.splits prod.splits)
  with Cons.prems obtain bs' l' where rec: "for_each f as = (Inr bs', l')"
    and bs: "bs = b # bs'" and l: "l = la @ l'"
    by (cases "for_each f as"; cases "fst (for_each f as)") (auto split: sum.splits prod.splits)
  from Cons.IH[OF rec] show ?case using fa bs l by simp
qed

lemma for_each_succeeds:
  "(\<forall>x\<in>set xs. isl (fst (f x)) = False) \<Longrightarrow>
   for_each f xs = (Inr (map (\<lambda>x. projr (fst (f x))) xs), concat (map (\<lambda>x. snd (f x)) xs))"
proof (induction xs)
  case Nil
  then show ?case by simp
next
  case (Cons a as)
  then obtain b where "fst (f a) = Inr b" by (cases "fst (f a)") auto
  then have fa: "f a = (Inr b, snd (f a))" by (cases "f a") auto
  have "for_each f as = (Inr (map (\<lambda>x. projr (fst (f x))) as), concat (map (\<lambda>x. snd (f x)) as))"
    using Cons by simp
  then show ?case using fa
    by (simp add: \<open>fst (f a) = Inr b\<close>) (metis (no_types, lifting) case_prod_conv fa old.sum.simps(6))
qed

lemma snd_error_per_class [simp]:
  "snd (error_per_class clf method X_cand X y classes C P i x yi) = [(X @ [x], y @ [Some (real yi)])]"
  by (simp add: error_per_class_def Let_def)

lemma error_of_candidate_Inr:
  assumes "error_of_candidate clf method X_cand X y classes C P (i, x) = (Inr e, l)"
  shows "l = map (\<lambda>yi. (X @ [x], y @ [Some (real yi)])) [0..<length classes]"
    and "e = (\<Sum>yi\<leftarrow>[0..<length classes].
               projr (fst (error_per_class clf method X_cand X y classes C P i x yi)))"
    and "\<forall>yi<length classes. isl (fst (error_per_class clf method X_cand X y classes C P i x yi)) = False"
proof -
  from assms obtain es where fe:
    "for_each (error_per_class clf method X_cand X y classes C P i x) [0..<length classes] = (Inr es, l)"
    and e: "e = sum_list es"
    by (auto simp: error_of_candidate_def split: prod.splits sum.splits)
  from for_each_Inr[OF fe] show "l = map (\<lambda>yi. (X @ [x], y @ [Some (real yi)])) [0..<length classes]"
    by (simp add: concat_map_singleton)
  from for_each_Inr[OF fe] e show "e = (\<Sum>yi\<leftarrow>[0..<length classes].
               projr (fst (error_per_class clf method X_cand X y classes C P i x yi)))" by simp
  from for_each_Inr[OF fe]
  show "\<forall>yi<length classes. isl (fst (error_per_class clf method X_cand X y classes C P i x yi)) = False"
    by simp
qed

lemma item2_Inr: "item2 P i j = Inr p \<Longrightarrow> p = P ! i ! j \<and> i < length P \<and> j < length (P ! i)"
  by (auto simp: item2_def split: if_splits)

lemma error_per_class_Inr:
  assumes "isl (fst (error_per_class clf method X_cand X y classes C P i x yi)) = False"
  shows "\<exists>c. costs clf (fit clf (X @ [x]) (y @ [Some (real yi)])) method X_cand X y classes C = Inr c \<and>
             item2 P i yi = Inr (P ! i ! yi) \<and>
             fst (error_per_class clf method X_cand X y classes C P i x yi) = Inr (P ! i ! yi * c)"
  using assms
  by (auto simp: error_per_class_def Let_def dest: item2_Inr split: sum.splits)

lemma expected_error_reduction_Inr:
  assumes "expected_error_reduction clf X_cand X y classes C method = (Inr utilities, l)"
  shows "l = (X, y) # concat (map (\<lambda>x. map (\<lambda>yi. (X @ [x], y @ [Some (real yi)])) [0..<length classes]) X_cand)"
    and "length utilities = length X_cand"
    and "\<forall>i<length X_cand. utilities ! i =
           - (\<Sum>yi\<leftarrow>[0..<length classes].
                predict_proba clf (fit clf X y) X_cand ! i ! yi *
                projr (costs clf (fit clf (X @ [X_cand ! i]) (y @ [Some (real yi)])) method X_cand X y classes
                         (case C of None \<Rightarrow> zero_one_cost (n_columns (predict_proba clf (fit clf X y) X_cand))
                                  | Some c \<Rightarrow> c)))"
proof -
  let ?P = "predict_proba clf (fit clf X y) X_cand"
  let ?C = "case C of None \<Rightarrow> zero_one_cost (n_columns ?P) | Some c \<Rightarrow> c"
  let ?f = "error_of_candidate clf method X_cand X y classes ?C ?P"
  let ?ixs = "zip [0..<length X_cand] X_cand"
  from assms obtain errors l' where fe: "for_each ?f ?ixs = (Inr errors, l')"
    and u: "utilities = map uminus errors" and l: "l = (X, y) # l'"
    by (auto simp: expected_error_reduction_def Let_def split: if_splits prod.splits sum.splits)
  from for_each_Inr[OF fe] have errs: "errors = map (\<lambda>ix. projr (fst (?f ix))) ?ixs"
    and l': "l' = concat (map (\<lambda>ix. snd (?f ix)) ?ixs)"
    and ok: "\<forall>ix\<in>set ?ixs. isl (fst (?f ix)) = False" by auto
  have each: "\<And>i x. (i, x) \<in> set ?ixs \<Longrightarrow>
      ?f (i, x) = (Inr (projr (fst (?f (i, x)))), snd (?f (i, x)))"
  proof -
    fix i x assume "(i, x) \<in> set ?ixs"
    with ok have "isl (fst (?f (i, x))) = False" by blast
    then show "?f (i, x) = (Inr (projr (fst (?f (i, x)))), snd (?f (i, x)))"
      by (cases "?f (i, x)"; cases "fst (?f (i, x))") auto
  qed
  have logs: "\<And>i x. (i, x) \<in> set ?ixs \<Longrightarrow>
      snd (?f (i, x)) = map (\<lambda>yi. (X @ [x], y @ [Some (real yi)])) [0..<length classes]"
    using error_of_candidate_Inr(1)[OF each] by blast
  have "map (\<lambda>ix. snd (?f ix)) ?ixs =
        map (\<lambda>ix. map (\<lambda>yi. (X @ [snd ix], y @ [Some (real yi)])) [0..<length classes]) ?ixs"
    by (rule map_cong[OF refl]) (use logs in auto)
  also have "\<dots> = map (\<lambda>x. map (\<lambda>yi. (X @ [x], y @ [Some (real yi)])) [0..<length classes]) (map snd ?ixs)"
    by (simp only: map_map comp_def)
  also have "map snd ?ixs = X_cand" by simp
  finally show "l = (X, y) # concat (map (\<lambda>x. map (\<lambda>yi. (X @ [x], y @ [Some (real yi)])) [0..<length classes]) X_cand)"
    using l l' by simp
  show len: "length utilities = length X_cand" using u errs by simp
  show "\<forall>i<length X_cand. utilities ! i =
           - (\<Sum>yi\<leftarrow>[0..<length classes]. ?P ! i ! yi *
                projr (costs clf (fit clf (X @ [X_cand ! i]) (y @ [Some (real yi)])) method X_cand X y classes ?C))"
  proof (intro allI impI)
    fix i assume i: "i < length X_cand"
    then have mem: "(i, X_cand ! i) \<in> set ?ixs"
      by (auto simp: in_set_zip intro!: exI[of _ i])
    have nth: "?ixs ! i = (i, X_cand ! i)" using i by simp
    have "utilities ! i = - projr (fst (?f (i, X_cand ! i)))"
      using u errs i nth by simp
    also have "projr (fst (?f (i, X_cand ! i))) =
        (\<Sum>yi\<leftarrow>[0..<length classes].
           projr (fst (error_per_class clf method X_cand X y classes ?C ?P i (X_cand ! i) yi)))"
      using error_of_candidate_Inr(2)[OF each[OF mem]] .
    also have "\<dots> = (\<Sum>yi\<leftarrow>[0..<length classes]. ?P ! i ! yi *
                projr (costs clf (fit clf (X @ [X_cand ! i]) (y @ [Some (real yi)])) method X_cand X y classes ?C))"
    proof (rule arg_cong[where f = sum_list], rule map_cong[OF refl])
      fix yi assume "yi \<in> set [0..<length classes]"
      then have "yi < length classes" by simp
      with error_of_candidate_Inr(3)[OF each[OF mem]]
      have "isl (fst (error_per_class clf method X_cand X y classes ?C ?P i (X_cand ! i) yi)) = False"
        by blast
      from error_per_class_Inr[OF this]
      show "projr (fst (error_per_class clf method X_cand X y classes ?C ?P i (X_cand ! i) yi)) =
            ?P ! i ! yi * projr (costs clf (fit clf (X @ [X_cand ! i]) (y @ [Some (real yi)])) method X_cand X y classes ?C)"
        by auto
    qed
    finally show "utilities ! i =
           - (\<Sum>yi\<leftarrow>[0..<length classes]. ?P ! i ! yi *
                projr (costs clf (fit clf (X @ [X_cand ! i]) (y @ [Some (real yi)])) method X_cand X y classes ?C))" .
  qed
qed

lemma claimed_refits_range:
  "claimed_refits X_cand X y (map real [0..<n]) =
   (X, y) # concat (map (\<lambda>x. map (\<lambda>yi. (X @ [x], y @ [Some (real yi)])) [0..<length (map real [0..<n])]) X_cand)"
  by (simp add: claimed_refits_def comp_def)

lemma refits_agree_on_range:
  assumes "expected_error_reduction clf X_cand X y (map real [0..<n]) C method = (Inr utilities, l)"
  shows "l = claimed_refits X_cand X y (map real [0..<n])"
  using expected_error_reduction_Inr(1)[OF assms] claimed_refits_range[of X_cand X y n] by simp

text \<open>
  Claim C1. For every candidate and every hypothetical label of \<open>classes\<close> the
  function refits the clone on the data set with the candidate and that label appended,
  weights the risk of the refit model by \<open>P[i, y_h]\<close>, sums over the labels and
  returns the negative sum. The code does all of this (\<open>expected_error_reduction_Inr\<close>)
  except for the appended label: line 161 appends the position \<open>yi\<close> of the class in
  \<open>classes\<close>, not the class \<open>classes[yi]\<close>. The two agree when \<open>classes\<close> is
  \<open>0, ..., n-1\<close> (\<open>refits_agree_on_range\<close>). With the classes 1 and 2, one candidate
  and one unlabeled sample, the clone is refit with the labels 0 and 1, where the claim
  has the labels 1 and 2.
\<close>

theorem refits_append_class_index:
  "snd (expected_error_reduction (example_clf\<lparr>clf_classes := [1, 2]\<rparr>) [[0]] [[1]] [None] [1, 2] None
          ''emr'') =
     [([[1]], [None]), ([[1], [0]], [None, Some 0]), ([[1], [0]], [None, Some 1])] \<and>
   claimed_refits [[0]] [[1]] [None] [1, 2] =
     [([[1]], [None]), ([[1], [0]], [None, Some 1]), ([[1], [0]], [None, Some 2])]"
  by code_simp

text \<open>
  Claim C7. \<open>query\<close> raises TypeError when the model is no
  \<open>ClassFrequencyEstimator\<close>; ValueError when \<open>classes\<close> differ from the model's
  classes; ValueError when \<open>method\<close> is none of \<open>emr\<close>, \<open>csl\<close>, \<open>log_loss\<close>; each
  time with no call of \<open>fit\<close> made. The checks run in this order, so each case is
  the one where the checks before it have passed.
\<close>

theorem query_rejects_before_fitting:
  "(\<not> is_class_frequency_estimator (eer_clf self) \<longrightarrow>
      query G ccp self X_cand X y r = (Inl TypeError, [], self)) \<and>
   (is_class_frequency_estimator (eer_clf self) \<and>
    ccp (eer_classes self) (eer_missing_label self) (eer_C self) = None \<and>
    clf_classes (eer_clf self) \<noteq> eer_classes self \<longrightarrow>
      query G ccp self X_cand X y r = (Inl ValueError, [], self)) \<and>
   (is_class_frequency_estimator (eer_clf self) \<and>
    ccp (eer_classes self) (eer_missing_label self) (eer_C self) = None \<and>
    clf_classes (eer_clf self) = eer_classes self \<and>
    eer_method self \<notin> {''emr'', ''csl'', ''log_loss''} \<longrightarrow>
      fst (query G ccp self X_cand X y r) = Inl ValueError \<and>
      fst (snd (query G ccp self X_cand X y r)) = [])"
  by (cases "eer_C self") (simp_all add: query_def Let_def)

theorem query_rejects_before_fitting_witness:
  "\<not> is_class_frequency_estimator (eer_clf (example_strategy\<lparr>eer_clf := example_clf\<lparr>is_class_frequency_estimator := False\<rparr>\<rparr>)) \<and>
   query example_prng accept_params
     (example_strategy\<lparr>eer_clf := example_clf\<lparr>is_class_frequency_estimator := False\<rparr>\<rparr>)
     [[0], [5]] [[1]] [None] True =
     (Inl TypeError, [], example_strategy\<lparr>eer_clf := example_clf\<lparr>is_class_frequency_estimator := False\<rparr>\<rparr>) \<and>
   clf_classes (eer_clf (example_strategy\<lparr>eer_classes := [1, 3]\<rparr>)) \<noteq> eer_classes (example_strategy\<lparr>eer_classes := [1, 3]\<rparr>) \<and>
   query example_prng accept_params (example_strategy\<lparr>eer_classes := [1, 3]\<rparr>) [[0], [5]] [[1]] [None] True =
     (Inl ValueError, [], example_strategy\<lparr>eer_classes := [1, 3]\<rparr>) \<and>
   eer_method (example_strategy\<lparr>eer_method := ''entropy''\<rparr>) \<notin> {''emr'', ''csl'', ''log_loss''} \<and>
   fst (query example_prng accept_params (example_strategy\<lparr>eer_method := ''entropy''\<rparr>) [[0], [5]] [[1]] [None] True) =
     Inl ValueError \<and>
   fst (snd (query example_prng accept_params (example_strategy\<lparr>eer_method := ''entropy''\<rparr>) [[0], [5]] [[1]] [None] True)) = []"
proof -
  let ?s1 = "example_strategy\<lparr>eer_clf := example_clf\<lparr>is_class_frequency_estimator := False\<rparr>\<rparr>"
  let ?s2 = "example_strategy\<lparr>eer_classes := [1, 3]\<rparr>"
  let ?s3 = "example_strategy\<lparr>eer_method := ''entropy''\<rparr>"
  have a1: "\<not> is_class_frequency_estimator (eer_clf ?s1)" by simp
  have a2: "is_class_frequency_estimator (eer_clf ?s2) \<and>
            accept_params (eer_classes ?s2) (eer_missing_label ?s2) (eer_C ?s2) = None \<and>
            clf_classes (eer_clf ?s2) \<noteq> eer_classes ?s2"
    by (simp add: example_strategy_def example_clf_def accept_params_def)
  have a3: "is_class_frequency_estimator (eer_clf ?s3) \<and>
            accept_params (eer_classes ?s3) (eer_missing_label ?s3) (eer_C ?s3) = None \<and>
            clf_classes (eer_clf ?s3) = eer_classes ?s3 \<and>
            eer_method ?s3 \<notin> {''emr'', ''csl'', ''log_loss''}"
    by (simp add: example_strategy_def example_clf_def accept_params_def)
  from query_rejects_before_fitting[of ?s1 example_prng accept_params "[[0], [5]]" "[[1]]" "[None]" True] a1
  have r1: "query example_prng accept_params ?s1 [[0], [5]] [[1]] [None] True = (Inl TypeError, [], ?s1)"
    by blast
  from query_rejects_before_fitting[of ?s2 example_prng accept_params "[[0], [5]]" "[[1]]" "[None]" True] a2
  have r2: "query example_prng accept_params ?s2 [[0], [5]] [[1]] [None] True = (Inl ValueError, [], ?s2)"
    by blast
  from query_rejects_before_fitting[of ?s3 example_prng accept_params "[[0], [5]]" "[[1]]" "[None]" True] a3
  have r3: "fst (query example_prng accept_params ?s3 [[0], [5]] [[1]] [None] True) = Inl ValueError \<and>
            fst (snd (query example_prng accept_params ?s3 [[0], [5]] [[1]] [None] True)) = []"
    by blast
  show ?thesis using a1 a2 a3 r1 r2 r3 by blast
qed

lemma query_advances_stored_generator:
  assumes "query G ccp self X_cand X y r = (Inr res, l, self')"
  shows "eer_random_state self' = snd (draw G (check_random_state (eer_random_state self)))"
  using assms
  by (auto simp: query_def Let_def dest!: rand_choice_Inr split: if_splits option.splits sum.splits prod.splits)

text \<open>
  Claim C4. Two consecutive identical calls of \<open>query\<close> on the same strategy object,
  constructed with a seed, are to return the same indices and utilities. Line 100
  replaces the seed in \<open>self.random_state\<close> by the generator object built from it, and
  the selection advances that object (\<open>query_advances_stored_generator\<close>): the second
  call breaks ties with the generator's next output, not with a repetition of the
  first. With two candidates of equal utility and a generator whose first two outputs
  differ in parity, the first call returns index 0 and the second index 1.
\<close>

theorem query_twice_differs:
  "fst (query example_prng accept_params example_strategy [[0], [5]] [[1]] [None] True) =
     Inr ([0], Some [[0, 0]]) \<and>
   fst (query example_prng accept_params
          (snd (snd (query example_prng accept_params example_strategy [[0], [5]] [[1]] [None] True)))
          [[0], [5]] [[1]] [None] True) =
     Inr ([1], Some [[0, 0]])"
  by code_simp

lemma mask_select_is_labeled_fst:
  "length X = length y \<Longrightarrow>
   mask_select X (is_labeled y ml) = Inr (map fst (labeled_samples X y ml))"
proof -
  assume len: "length X = length y"
  have "map fst (filter snd (zip X (map (\<lambda>l. l \<noteq> ml) y))) =
        map fst (filter (\<lambda>xl. snd xl \<noteq> ml) (zip X y))"
    using len by (induction X y rule: list_induct2) auto
  then show ?thesis using len by (simp add: mask_select_def is_labeled_def labeled_samples_def)
qed

lemma mask_select_is_labeled_snd:
  "length X = length y \<Longrightarrow>
   mask_select y (is_labeled y ml) = Inr (map snd (labeled_samples X y ml))"
proof -
  assume len: "length X = length y"
  have "map fst (filter snd (zip y (map (\<lambda>l. l \<noteq> ml) y))) =
        map snd (filter (\<lambda>xl. snd xl \<noteq> ml) (zip X y))"
    using len by (induction X y rule: list_induct2) auto
  then show ?thesis by (simp add: mask_select_def is_labeled_def labeled_samples_def)
qed

lemma where_first_class_position:
  "v \<in> set classes \<Longrightarrow> where_first classes (Some v) = Inr (class_position classes v)"
  by (induction classes) (auto simp: class_position_def)

lemma class_position_less: "v \<in> set classes \<Longrightarrow> class_position classes v < length classes"
  unfolding class_position_def by (induction classes) auto

lemma each_or_error_where_first:
  "\<forall>l\<in>set ls. l \<in> Some ` set classes \<Longrightarrow>
   each_or_error (where_first classes) ls = Inr (map (\<lambda>l. class_position classes (the l)) ls)"
  by (induction ls) (auto simp: where_first_class_position)

lemma sum_product_rows:
  "sum_product A (map g ls) = sum_list (map2 (\<lambda>p l. sum_list (map2 (*) p (g l))) A ls)"
proof -
  have "zip A (map g ls) = map (\<lambda>(p, l). (p, g l)) (zip A ls)"
    by (simp add: zip_map2)
  then show ?thesis by (simp add: sum_product_def comp_def case_prod_unfold)
qed

lemma costs_csl:
  assumes len: "length X = length y"
    and known: "\<forall>l\<in>set y. l \<noteq> clf_missing_label clf \<longrightarrow> l \<in> Some ` set classes"
    and rows: "length classes \<le> length C"
  shows "costs clf m ''csl'' X_cand X y classes C = Inr (csl_risk clf m X y classes C)"
proof -
  let ?ml = "clf_missing_label clf"
  let ?ls = "labeled_samples X y ?ml"
  have lab: "\<forall>l\<in>set (map snd ?ls). l \<in> Some ` set classes"
  proof
    fix l assume "l \<in> set (map snd ?ls)"
    then obtain x where "(x, l) \<in> set (zip X y)" "l \<noteq> ?ml"
      by (auto simp: labeled_samples_def)
    then have "l \<in> set y" "l \<noteq> ?ml" by (auto dest: set_zip_rightD)
    with known show "l \<in> Some ` set classes" by blast
  qed
  then have idx: "each_or_error (where_first classes) (map snd ?ls) =
      Inr (map (\<lambda>l. class_position classes (the l)) (map snd ?ls))"
    by (rule each_or_error_where_first)
  have inrange: "list_all (\<lambda>k. k < length C) (map (\<lambda>l. class_position classes (the l)) (map snd ?ls))"
  proof -
    have "\<forall>l\<in>set (map snd ?ls). class_position classes (the l) < length C"
    proof
      fix l assume "l \<in> set (map snd ?ls)"
      with lab obtain v where "l = Some v" "v \<in> set classes" by auto
      then show "class_position classes (the l) < length C"
        using class_position_less[of v classes] rows by simp
    qed
    then show ?thesis by (simp add: list_all_iff)
  qed
  show ?thesis
  proof (cases "?ls = []")
    case True
    then show ?thesis
      using len by (simp add: costs_def mask_select_is_labeled_fst mask_select_is_labeled_snd[OF len] csl_risk_def)
  next
    case False
    have "sum_product (predict_proba clf m (map fst ?ls))
            (map (\<lambda>k. C ! k) (map (\<lambda>l. class_position classes (the l)) (map snd ?ls))) =
          csl_risk clf m X y classes C"
      by (simp add: csl_risk_def Let_def sum_product_rows[of _ "\<lambda>xl. C ! class_position classes (the (snd xl))", symmetric] comp_def)
    then show ?thesis
      using len False idx inrange
      by (simp add: costs_def mask_select_is_labeled_fst mask_select_is_labeled_snd[OF len] take_rows_def)
  qed
qed

lemma labeled_samples_empty:
  "list_all (\<lambda>l. l = ml) y \<Longrightarrow> labeled_samples X y ml = []"
  by (auto simp: labeled_samples_def list_all_iff filter_empty_conv dest: set_zip_rightD)

lemma item2_proba_shape:
  "proba_shape P n c \<Longrightarrow> i < n \<Longrightarrow> j < c \<Longrightarrow> item2 P i j = Inr (P ! i ! j)"
  by (auto simp: proba_shape_def item2_def list_all_length)

lemma costs_csl_unlabeled:
  assumes "length X = length y" and "list_all (\<lambda>l. l = clf_missing_label clf) y"
  shows "costs clf m ''csl'' X_cand X y classes C = Inr 0"
  using assms
  by (simp add: costs_def mask_select_is_labeled_fst mask_select_is_labeled_snd[of X y]
      labeled_samples_empty)

lemma error_of_candidate_csl_unlabeled:
  assumes len: "length X = length y" and un: "list_all (\<lambda>l. l = clf_missing_label clf) y"
    and shape: "proba_shape P n (length classes)" and i: "i < n"
  shows "fst (error_of_candidate clf ''csl'' X_cand X y classes C P (i, x)) = Inr 0"
proof -
  let ?f = "error_per_class clf ''csl'' X_cand X y classes C P i x"
  have each: "\<And>yi. yi < length classes \<Longrightarrow> fst (?f yi) = Inr 0"
    using costs_csl_unlabeled[OF len un] item2_proba_shape[OF shape i]
    by (simp add: error_per_class_def Let_def)
  then have "\<forall>yi\<in>set [0..<length classes]. isl (fst (?f yi)) = False" by simp
  from for_each_succeeds[OF this]
  have fe: "for_each ?f [0..<length classes] =
      (Inr (map (\<lambda>yi. projr (fst (?f yi))) [0..<length classes]), concat (map (\<lambda>yi. snd (?f yi)) [0..<length classes]))" .
  have "map (\<lambda>yi. projr (fst (?f yi))) [0..<length classes] = map (\<lambda>yi. 0) [0..<length classes]"
    by (rule map_cong[OF refl]) (simp add: each)
  then have "sum_list (map (\<lambda>yi. projr (fst (?f yi))) [0..<length classes]) =
             sum_list (map (\<lambda>yi. 0::real) [0..<length classes])"
    by (rule arg_cong)
  then have "sum_list (map (\<lambda>yi. projr (fst (?f yi))) [0..<length classes]) = 0"
    by simp
  then show ?thesis using fe by (simp add: error_of_candidate_def)
qed

lemma expected_error_reduction_csl_unlabeled:
  assumes len: "length X = length y" and un: "list_all (\<lambda>l. l = clf_missing_label clf) y"
    and shape: "proba_shape (predict_proba clf (fit clf X y) X_cand) (length X_cand) (length classes)"
    and feat: "length X = 0 \<or> length X_cand = 0 \<or> n_columns X = n_columns X_cand"
  shows "fst (expected_error_reduction clf X_cand X y classes C ''csl'') = Inr (replicate (length X_cand) 0)"
proof -
  let ?P = "predict_proba clf (fit clf X y) X_cand"
  let ?C = "case C of None \<Rightarrow> zero_one_cost (n_columns ?P) | Some c \<Rightarrow> c"
  let ?f = "error_of_candidate clf ''csl'' X_cand X y classes ?C ?P"
  let ?ixs = "zip [0..<length X_cand] X_cand"
  have each: "\<And>ix. ix \<in> set ?ixs \<Longrightarrow> fst (?f ix) = Inr 0"
  proof -
    fix ix assume "ix \<in> set ?ixs"
    then have "fst ix < length X_cand" by (auto simp: in_set_zip)
    from error_of_candidate_csl_unlabeled[OF len un shape this, of X_cand ?C "snd ix"]
    show "fst (?f ix) = Inr 0" by simp
  qed
  then have "\<forall>ix\<in>set ?ixs. isl (fst (?f ix)) = False" by simp
  from for_each_succeeds[OF this]
  have fe: "for_each ?f ?ixs = (Inr (map (\<lambda>ix. projr (fst (?f ix))) ?ixs), concat (map (\<lambda>ix. snd (?f ix)) ?ixs))" .
  have "map (\<lambda>ix. projr (fst (?f ix))) ?ixs = map (\<lambda>ix. 0) ?ixs"
    by (rule map_cong[OF refl]) (simp add: each)
  also have "\<dots> = replicate (length X_cand) 0" by (simp add: map_replicate_const)
  finally have errs: "map (\<lambda>ix. projr (fst (?f ix))) ?ixs = replicate (length X_cand) 0" .
  have "\<not> (length X > 0 \<and> length X_cand > 0 \<and> n_columns X \<noteq> n_columns X_cand)"
    using feat by auto
  then show ?thesis using fe errs
    by (simp add: expected_error_reduction_def Let_def)
qed

lemma zip_upt_nth: "zip [0..<length xs] xs = map (\<lambda>i. (i, xs ! i)) [0..<length xs]"
  by (rule nth_equalityI) simp_all

lemma error_of_candidate_csl:
  assumes len: "length X = length y"
    and known: "\<forall>l\<in>set y. l \<noteq> clf_missing_label clf \<longrightarrow> l \<in> Some ` set classes"
    and rows: "length classes \<le> length C"
    and shape: "proba_shape P n (length classes)" and i: "i < n"
  shows "fst (error_of_candidate clf ''csl'' X_cand X y classes C P (i, x)) =
         Inr (\<Sum>yi\<leftarrow>[0..<length classes].
                P ! i ! yi * csl_risk clf (fit clf (X @ [x]) (y @ [Some (real yi)])) X y classes C)"
proof -
  let ?f = "error_per_class clf ''csl'' X_cand X y classes C P i x"
  let ?g = "\<lambda>yi. P ! i ! yi * csl_risk clf (fit clf (X @ [x]) (y @ [Some (real yi)])) X y classes C"
  have each: "\<And>yi. yi < length classes \<Longrightarrow> fst (?f yi) = Inr (?g yi)"
    using costs_csl[OF len known rows] item2_proba_shape[OF shape i]
    by (simp add: error_per_class_def Let_def)
  then have "\<forall>yi\<in>set [0..<length classes]. isl (fst (?f yi)) = False" by simp
  from for_each_succeeds[OF this]
  have fe: "for_each ?f [0..<length classes] =
      (Inr (map (\<lambda>yi. projr (fst (?f yi))) [0..<length classes]),
       concat (map (\<lambda>yi. snd (?f yi)) [0..<length classes]))" .
  have "map (\<lambda>yi. projr (fst (?f yi))) [0..<length classes] = map ?g [0..<length classes]"
    by (rule map_cong[OF refl]) (simp add: each)
  then have "sum_list (map (\<lambda>yi. projr (fst (?f yi))) [0..<length classes]) =
             sum_list (map ?g [0..<length classes])"
    by (rule arg_cong)
  moreover have "fst (error_of_candidate clf ''csl'' X_cand X y classes C P (i, x)) =
      Inr (sum_list (map (\<lambda>yi. projr (fst (?f yi))) [0..<length classes]))"
    using fe by (simp add: error_of_candidate_def)
  ultimately show ?thesis by (simp only:)
qed

lemma expected_error_reduction_csl:
  assumes len: "length X = length y"
    and known: "\<forall>l\<in>set y. l \<noteq> clf_missing_label clf \<longrightarrow> l \<in> Some ` set classes"
    and shape: "proba_shape (predict_proba clf (fit clf X y) X_cand) (length X_cand) (length classes)"
    and feat: "length X = 0 \<or> length X_cand = 0 \<or> n_columns X = n_columns X_cand"
    and rows: "length classes \<le>
                 length (case C_opt of
                           None \<Rightarrow> zero_one_cost (n_columns (predict_proba clf (fit clf X y) X_cand))
                         | Some c \<Rightarrow> c)"
  shows "fst (expected_error_reduction clf X_cand X y classes C_opt ''csl'') =
         Inr (map (\<lambda>i. - (\<Sum>yi\<leftarrow>[0..<length classes].
                             predict_proba clf (fit clf X y) X_cand ! i ! yi *
                             csl_risk clf (fit clf (X @ [X_cand ! i]) (y @ [Some (real yi)])) X y classes
                               (case C_opt of
                                  None \<Rightarrow> zero_one_cost (n_columns (predict_proba clf (fit clf X y) X_cand))
                                | Some c \<Rightarrow> c)))
                [0..<length X_cand])"
proof -
  let ?P = "predict_proba clf (fit clf X y) X_cand"
  let ?C = "case C_opt of None \<Rightarrow> zero_one_cost (n_columns ?P) | Some c \<Rightarrow> c"
  let ?f = "error_of_candidate clf ''csl'' X_cand X y classes ?C ?P"
  let ?ixs = "zip [0..<length X_cand] X_cand"
  let ?g = "\<lambda>i. (\<Sum>yi\<leftarrow>[0..<length classes].
               ?P ! i ! yi * csl_risk clf (fit clf (X @ [X_cand ! i]) (y @ [Some (real yi)])) X y classes ?C)"
  have each: "\<And>i. i < length X_cand \<Longrightarrow> fst (?f (i, X_cand ! i)) = Inr (?g i)"
    using error_of_candidate_csl[OF len known rows shape] by blast
  have ixs: "?ixs = map (\<lambda>i. (i, X_cand ! i)) [0..<length X_cand]" by (rule zip_upt_nth)
  have "\<forall>ix\<in>set ?ixs. isl (fst (?f ix)) = False"
  proof
    fix ix assume "ix \<in> set ?ixs"
    then obtain i where "i < length X_cand" "ix = (i, X_cand ! i)"
      by (auto simp: in_set_zip)
    then show "isl (fst (?f ix)) = False" using each by simp
  qed
  from for_each_succeeds[OF this]
  have fe: "for_each ?f ?ixs =
      (Inr (map (\<lambda>ix. projr (fst (?f ix))) ?ixs), concat (map (\<lambda>ix. snd (?f ix)) ?ixs))" .
  have "map (\<lambda>ix. projr (fst (?f ix))) ?ixs =
        map (\<lambda>i. projr (fst (?f (i, X_cand ! i)))) [0..<length X_cand]"
    by (subst ixs) (simp add: comp_def)
  also have "\<dots> = map ?g [0..<length X_cand]"
    by (rule map_cong[OF refl]) (simp add: each)
  finally have errs: "map (\<lambda>ix. projr (fst (?f ix))) ?ixs = map ?g [0..<length X_cand]" .
  have "\<not> (length X > 0 \<and> length X_cand > 0 \<and> n_columns X \<noteq> n_columns X_cand)"
    using feat by auto
  then have "fst (expected_error_reduction clf X_cand X y classes C_opt ''csl'') =
      Inr (map uminus (map (\<lambda>ix. projr (fst (?f ix))) ?ixs))"
    using fe by (simp add: expected_error_reduction_def Let_def)
  also have "map uminus (map (\<lambda>ix. projr (fst (?f ix))) ?ixs) = map uminus (map ?g [0..<length X_cand])"
    using errs by (rule arg_cong)
  finally show ?thesis by (simp add: comp_def)
qed

lemma length_zero_one_cost [simp]: "length (zero_one_cost n) = n"
  by (simp add: zero_one_cost_def)

lemma n_columns_proba_shape:
  "proba_shape P n c \<Longrightarrow> 0 < n \<Longrightarrow> n_columns P = c"
  by (cases P) (auto simp: proba_shape_def n_columns_def)

lemma expected_error_reduction_csl_default_cost:
  assumes len: "length X = length y"
    and known: "\<forall>l\<in>set y. l \<noteq> clf_missing_label clf \<longrightarrow> l \<in> Some ` set classes"
    and shape: "proba_shape (predict_proba clf (fit clf X y) X_cand) (length X_cand) (length classes)"
    and feat: "length X = 0 \<or> length X_cand = 0 \<or> n_columns X = n_columns X_cand"
  shows "fst (expected_error_reduction clf X_cand X y classes None ''csl'') =
         Inr (map (\<lambda>i. - (\<Sum>yi\<leftarrow>[0..<length classes].
                             predict_proba clf (fit clf X y) X_cand ! i ! yi *
                             csl_risk clf (fit clf (X @ [X_cand ! i]) (y @ [Some (real yi)])) X y classes
                               (zero_one_cost (length classes))))
                [0..<length X_cand])"
proof (cases "X_cand = []")
  case True
  then show ?thesis by (simp add: expected_error_reduction_def Let_def)
next
  case False
  then have nc: "n_columns (predict_proba clf (fit clf X y) X_cand) = length classes"
    using n_columns_proba_shape[OF shape] by simp
  have rows: "length classes \<le>
                 length (case None of
                           None \<Rightarrow> zero_one_cost (n_columns (predict_proba clf (fit clf X y) X_cand))
                         | Some c \<Rightarrow> c)"
    using nc by simp
  from expected_error_reduction_csl[OF len known shape feat rows] show ?thesis
    using nc by simp
qed

text \<open>
  Claim C8. For the \<open>csl\<close> method, \<open>expected_error_reduction\<close> returns for candidate
  \<open>i\<close> the negative sum over the classes of \<open>P[i, yi]\<close> times the risk of the model
  refit for \<open>i\<close> and \<open>yi\<close>, and that risk (\<open>costs\<close>) is the cost-weighted posterior
  summed over the labeled samples only, each with the row of \<open>C\<close> of its true class
  (\<open>csl_risk\<close>); the risk is 0 when no sample is labeled, and then the utility of
  every candidate is 0. The hypotheses are the data model's: \<open>X\<close> and \<open>y\<close> have the
  same length, every label that is not missing is a class, \<open>C\<close> has a row for every
  class, and (for the utilities) the classifier returns one row per candidate and one
  column per class and the feature counts of \<open>X\<close> and the candidates agree.
\<close>

theorem csl_risk_over_labeled_samples:
  assumes "length X = length y"
    and "\<forall>l\<in>set y. l \<noteq> clf_missing_label clf \<longrightarrow> l \<in> Some ` set classes"
    and "length classes \<le> length C"
  shows "costs clf m ''csl'' X_cand X y classes C = Inr (csl_risk clf m X y classes C) \<and>
         (proba_shape (predict_proba clf (fit clf X y) X_cand) (length X_cand) (length classes) \<and>
          (length X = 0 \<or> length X_cand = 0 \<or> n_columns X = n_columns X_cand) \<longrightarrow>
            fst (expected_error_reduction clf X_cand X y classes (Some C) ''csl'') =
              Inr (map (\<lambda>i. - (\<Sum>yi\<leftarrow>[0..<length classes].
                                  predict_proba clf (fit clf X y) X_cand ! i ! yi *
                                  csl_risk clf (fit clf (X @ [X_cand ! i]) (y @ [Some (real yi)]))
                                    X y classes C))
                     [0..<length X_cand]) \<and>
            fst (expected_error_reduction clf X_cand X y classes None ''csl'') =
              Inr (map (\<lambda>i. - (\<Sum>yi\<leftarrow>[0..<length classes].
                                  predict_proba clf (fit clf X y) X_cand ! i ! yi *
                                  csl_risk clf (fit clf (X @ [X_cand ! i]) (y @ [Some (real yi)]))
                                    X y classes (zero_one_cost (length classes))))
                     [0..<length X_cand])) \<and>
         (list_all (\<lambda>l. l = clf_missing_label clf) y \<longrightarrow>
            csl_risk clf m X y classes C = 0 \<and>
            (proba_shape (predict_proba clf (fit clf X y) X_cand) (length X_cand) (length classes) \<and>
             (length X = 0 \<or> length X_cand = 0 \<or> n_columns X = n_columns X_cand) \<longrightarrow>
               fst (expected_error_reduction clf X_cand X y classes C_opt ''csl'') =
                 Inr (replicate (length X_cand) 0)))"
proof (intro conjI impI)
  show "costs clf m ''csl'' X_cand X y classes C = Inr (csl_risk clf m X y classes C)"
    using assms by (rule costs_csl)
next
  assume a: "proba_shape (predict_proba clf (fit clf X y) X_cand) (length X_cand) (length classes) \<and>
         (length X = 0 \<or> length X_cand = 0 \<or> n_columns X = n_columns X_cand)"
  have rows: "length classes \<le>
                 length (case Some C of
                           None \<Rightarrow> zero_one_cost (n_columns (predict_proba clf (fit clf X y) X_cand))
                         | Some c \<Rightarrow> c)"
    using assms(3) by simp
  from expected_error_reduction_csl[OF assms(1,2) conjunct1[OF a] conjunct2[OF a] rows]
  show "fst (expected_error_reduction clf X_cand X y classes (Some C) ''csl'') =
              Inr (map (\<lambda>i. - (\<Sum>yi\<leftarrow>[0..<length classes].
                                  predict_proba clf (fit clf X y) X_cand ! i ! yi *
                                  csl_risk clf (fit clf (X @ [X_cand ! i]) (y @ [Some (real yi)]))
                                    X y classes C))
                     [0..<length X_cand])"
    by simp
  from expected_error_reduction_csl_default_cost[OF assms(1,2) conjunct1[OF a] conjunct2[OF a]]
  show "fst (expected_error_reduction clf X_cand X y classes None ''csl'') =
              Inr (map (\<lambda>i. - (\<Sum>yi\<leftarrow>[0..<length classes].
                                  predict_proba clf (fit clf X y) X_cand ! i ! yi *
                                  csl_risk clf (fit clf (X @ [X_cand ! i]) (y @ [Some (real yi)]))
                                    X y classes (zero_one_cost (length classes))))
                     [0..<length X_cand])" .
next
  assume "list_all (\<lambda>l. l = clf_missing_label clf) y"
  then show "csl_risk clf m X y classes C = 0"
    by (simp add: csl_risk_def labeled_samples_empty)
next
  assume un: "list_all (\<lambda>l. l = clf_missing_label clf) y"
    and "proba_shape (predict_proba clf (fit clf X y) X_cand) (length X_cand) (length classes) \<and>
         (length X = 0 \<or> length X_cand = 0 \<or> n_columns X = n_columns X_cand)"
  then show "fst (expected_error_reduction clf X_cand X y classes C_opt ''csl'') =
             Inr (replicate (length X_cand) 0)"
    using expected_error_reduction_csl_unlabeled[OF assms(1) un] by blast
qed

text \<open>
  Two candidates, two samples of which the second has the label 1, a classifier that
  predicts one half for each class: every refit has the risk 1/2 and both utilities
  are -1/2, with the cost matrix given and with the default one. With no labeled
  sample both utilities are 0.
\<close>

theorem csl_risk_over_labeled_samples_witness:
  "length [[1], [2::real]] = length [None, Some (1::real)] \<and>
   list_all (\<lambda>l. l = clf_missing_label example_clf \<or> l \<in> Some ` set [0, 1]) [None, Some 1] \<and>
   length [0, 1::real] \<le> length [[0, 1], [1, 0::real]] \<and>
   proba_shape (predict_proba example_clf (fit example_clf [[1], [2]] [None, Some 1]) [[0], [5]]) 2 2 \<and>
   costs example_clf (fit example_clf ([[1], [2]] @ [[0]]) ([None, Some 1] @ [Some 0])) ''csl''
     [[0], [5]] [[1], [2]] [None, Some 1] [0, 1] [[0, 1], [1, 0]] = Inr (1 / 2) \<and>
   fst (expected_error_reduction example_clf [[0], [5]] [[1], [2]] [None, Some 1] [0, 1]
          (Some [[0, 1], [1, 0]]) ''csl'') = Inr [- (1 / 2), - (1 / 2)] \<and>
   fst (expected_error_reduction example_clf [[0], [5]] [[1], [2]] [None, Some 1] [0, 1] None ''csl'') =
     Inr [- (1 / 2), - (1 / 2)] \<and>
   list_all (\<lambda>l. l = clf_missing_label example_clf) [None, None] \<and>
   csl_risk example_clf [] [[1], [2]] [None, None] [0, 1] [[0, 1], [1, 0]] = 0 \<and>
   fst (expected_error_reduction example_clf [[0], [5]] [[1], [2]] [None, None] [0, 1] None ''csl'') =
     Inr [0, 0]"
proof -
  let ?m = "fit example_clf ([[1], [2]] @ [[0]]) ([None, Some 1] @ [Some 0])"
  have h1: "length [[1], [2::real]] = length [None, Some (1::real)]" by simp
  have h2: "\<forall>l\<in>set [None, Some 1]. l \<noteq> clf_missing_label example_clf \<longrightarrow> l \<in> Some ` set [0, 1]"
    by (simp add: example_clf_def)
  have h2': "list_all (\<lambda>l. l = clf_missing_label example_clf \<or> l \<in> Some ` set [0, 1]) [None, Some 1]"
    by (simp add: example_clf_def)
  have h3: "length [0, 1::real] \<le> length [[0, 1], [1, 0::real]]" by simp
  have sh: "proba_shape (predict_proba example_clf (fit example_clf [[1], [2]] [None, Some 1]) [[0], [5]]) 2 2"
    by code_simp
  have ft: "length [[1], [2::real]] = 0 \<or> length [[0], [5::real]] = 0 \<or> n_columns [[1], [2]] = n_columns [[0], [5]]"
    by (simp add: n_columns_def)
  have v: "csl_risk example_clf ?m [[1], [2]] [None, Some 1] [0, 1] [[0, 1], [1, 0]] = 1 / 2"
    by code_simp
  have e1: "Inr (map (\<lambda>i. - (\<Sum>yi\<leftarrow>[0..<length [0, 1::real]].
               predict_proba example_clf (fit example_clf [[1], [2]] [None, Some 1]) [[0], [5]] ! i ! yi *
               csl_risk example_clf (fit example_clf ([[1], [2]] @ [[[0], [5]] ! i]) ([None, Some 1] @ [Some (real yi)]))
                 [[1], [2]] [None, Some 1] [0, 1] [[0, 1], [1, 0]]))
             [0..<length [[0], [5::real]]]) = (Inr [- (1 / 2), - (1 / 2)] :: error + real list)"
    by code_simp
  have e2: "Inr (map (\<lambda>i. - (\<Sum>yi\<leftarrow>[0..<length [0, 1::real]].
               predict_proba example_clf (fit example_clf [[1], [2]] [None, Some 1]) [[0], [5]] ! i ! yi *
               csl_risk example_clf (fit example_clf ([[1], [2]] @ [[[0], [5]] ! i]) ([None, Some 1] @ [Some (real yi)]))
                 [[1], [2]] [None, Some 1] [0, 1] (zero_one_cost (length [0, 1::real]))))
             [0..<length [[0], [5::real]]]) = (Inr [- (1 / 2), - (1 / 2)] :: error + real list)"
    by code_simp
  note t = csl_risk_over_labeled_samples[OF h1 h2 h3, of ?m "[[0], [5]]"]
  from t v have c: "costs example_clf ?m ''csl'' [[0], [5]] [[1], [2]] [None, Some 1] [0, 1] [[0, 1], [1, 0]] = Inr (1 / 2)"
    by simp
  from t sh ft have
    "fst (expected_error_reduction example_clf [[0], [5]] [[1], [2]] [None, Some 1] [0, 1]
          (Some [[0, 1], [1, 0]]) ''csl'') =
       Inr (map (\<lambda>i. - (\<Sum>yi\<leftarrow>[0..<length [0, 1::real]].
               predict_proba example_clf (fit example_clf [[1], [2]] [None, Some 1]) [[0], [5]] ! i ! yi *
               csl_risk example_clf (fit example_clf ([[1], [2]] @ [[[0], [5]] ! i]) ([None, Some 1] @ [Some (real yi)]))
                 [[1], [2]] [None, Some 1] [0, 1] [[0, 1], [1, 0]]))
             [0..<length [[0], [5::real]]])"
    by (simp add: numeral_2_eq_2)
  with e1 have f1: "fst (expected_error_reduction example_clf [[0], [5]] [[1], [2]] [None, Some 1] [0, 1]
          (Some [[0, 1], [1, 0]]) ''csl'') = Inr [- (1 / 2), - (1 / 2)]" by (simp only:)
  from t sh ft have
    "fst (expected_error_reduction example_clf [[0], [5]] [[1], [2]] [None, Some 1] [0, 1] None ''csl'') =
       Inr (map (\<lambda>i. - (\<Sum>yi\<leftarrow>[0..<length [0, 1::real]].
               predict_proba example_clf (fit example_clf [[1], [2]] [None, Some 1]) [[0], [5]] ! i ! yi *
               csl_risk example_clf (fit example_clf ([[1], [2]] @ [[[0], [5]] ! i]) ([None, Some 1] @ [Some (real yi)]))
                 [[1], [2]] [None, Some 1] [0, 1] (zero_one_cost (length [0, 1::real]))))
             [0..<length [[0], [5::real]]])"
    by (simp add: numeral_2_eq_2)
  with e2 have f2: "fst (expected_error_reduction example_clf [[0], [5]] [[1], [2]] [None, Some 1] [0, 1] None ''csl'') =
       Inr [- (1 / 2), - (1 / 2)]" by (simp only:)
  have g1: "length [[1], [2::real]] = length [None, None :: flt]" by simp
  have g2: "\<forall>l\<in>set [None, None]. l \<noteq> clf_missing_label example_clf \<longrightarrow> l \<in> Some ` set [0, 1]"
    by (simp add: example_clf_def)
  have u: "list_all (\<lambda>l. l = clf_missing_label example_clf) [None, None]"
    by (simp add: example_clf_def)
  have sh0: "proba_shape (predict_proba example_clf (fit example_clf [[1], [2]] [None, None]) [[0], [5]]) 2 2"
    by code_simp
  have sh0': "proba_shape (predict_proba example_clf (fit example_clf [[1], [2]] [None, None]) [[0], [5]])
                (length [[0], [5::real]]) (length [0, 1::real])"
    by code_simp
  note t0 = csl_risk_over_labeled_samples[OF g1 g2 h3, of "[]" "[[0], [5]]" None]
  from t0 u have z1: "csl_risk example_clf [] [[1], [2]] [None, None] [0, 1] [[0, 1], [1, 0]] = 0"
    by blast
  from t0 u sh0' ft have
    "fst (expected_error_reduction example_clf [[0], [5]] [[1], [2]] [None, None] [0, 1] None ''csl'') =
       Inr (replicate (length [[0], [5::real]]) 0)"
    by blast
  then have z2: "fst (expected_error_reduction example_clf [[0], [5]] [[1], [2]] [None, None] [0, 1] None ''csl'') =
       Inr [0, 0]"
    by (simp add: numeral_2_eq_2)
  note z = conjI[OF z1 z2]
  show ?thesis using h1 h2' h3 sh c f1 f2 u z by blast
qed

section \<open>Properties of the sub-sampling wrapper\<close>

lemma mset_remove_nth:
  "k < length a \<Longrightarrow> mset a = add_mset (a ! k) (mset (take k a @ drop (Suc k) a))"
proof -
  assume k: "k < length a"
  then have "a = take k a @ a ! k # drop (Suc k) a" by (simp add: id_take_nth_drop)
  then have "mset a = mset (take k a @ a ! k # drop (Suc k) a)" by simp
  then show ?thesis by simp
qed

lemma pick_distinct_mset:
  "mset (fst (pick_distinct G rs a n)) \<subseteq># mset a \<and>
   length (fst (pick_distinct G rs a n)) = min n (length a)"
proof (induction n arbitrary: rs a)
  case 0
  then show ?case by simp
next
  case (Suc n)
  show ?case
  proof (cases "a = []")
    case True
    then show ?thesis by simp
  next
    case False
    obtain r rs' where d: "draw G rs = (r, rs')" by (cases "draw G rs")
    let ?k = "r mod length a"
    let ?a' = "take ?k a @ drop (Suc ?k) a"
    obtain rest rs'' where p: "pick_distinct G rs' ?a' n = (rest, rs'')"
      by (cases "pick_distinct G rs' ?a' n")
    have k: "?k < length a" using False by simp
    from Suc.IH[of rs' ?a'] p have ih: "mset rest \<subseteq># mset ?a'" "length rest = min n (length ?a')"
      by simp_all
    have m: "mset a = add_mset (a ! ?k) (mset ?a')" using k by (rule mset_remove_nth)
    have res: "fst (pick_distinct G rs a (Suc n)) = a ! ?k # rest"
      using False d p by simp
    have "mset (a ! ?k # rest) \<subseteq># mset a" using ih(1) m by simp
    moreover have "length (a ! ?k # rest) = min (Suc n) (length a)"
      using ih(2) k by auto
    ultimately show ?thesis using res by simp
  qed
qed

lemma choice_Inr:
  assumes "choice G rs a n = Inr s"
  shows "mset s \<subseteq># mset a" and "int (length s) = n"
  using assms pick_distinct_mset[of G rs a "nat n"]
  by (auto simp: choice_def split: if_splits)

lemma choice_succeeds:
  "0 \<le> n \<Longrightarrow> n \<le> int (length a) \<Longrightarrow> \<exists>s. choice G rs a n = Inr s"
  by (simp add: choice_def)

lemma choice_all:
  assumes "choice G rs a (int (length a)) = Inr s"
  shows "mset s = mset a"
proof -
  from choice_Inr[OF assms] have "mset s \<subseteq># mset a" "size (mset s) = size (mset a)" by simp_all
  then show ?thesis by (metis mset_subset_size subset_mset.less_le size_mset nat_neq_iff)
qed

lemma choice_distinct:
  assumes "choice G rs a n = Inr s" and "distinct a"
  shows "distinct s" and "set s \<subseteq> set a"
proof -
  from choice_Inr(1)[OF assms(1)] have sub: "mset s \<subseteq># mset a" .
  then show "set s \<subseteq> set a" by (metis set_mset_mono set_mset_mset)
  have "\<And>x. count (mset s) x = (if x \<in> set s then 1 else 0)"
  proof -
    fix x
    have le: "count (mset s) x \<le> count (mset a) x" using sub by (rule mset_subset_eq_count)
    have "count (mset a) x \<le> 1" using assms(2) by (simp add: distinct_count_atmost_1)
    with le have le1: "count (mset s) x \<le> 1" by simp
    show "count (mset s) x = (if x \<in> set s then 1 else 0)"
    proof (cases "x \<in> set s")
      case True
      then have "0 < count (mset s) x" by (simp add: count_greater_zero_iff)
      with le1 have "count (mset s) x = 1" by linarith
      then show ?thesis using True by simp
    next
      case False
      then show ?thesis by (simp add: count_eq_zero_iff)
    qed
  qed
  then show "distinct s" by (simp add: distinct_count_atmost_1)
qed

text \<open>
  The binary64 rounding: the exponent brackets a positive number, a rounded number
  that is not negative stays so, an integer below \<open>2 ^ 53\<close> is a binary64 number,
  and rounding does not cross such an integer.
\<close>

lemma pow2_pos: "0 < pow2 e"
  by (simp add: pow2_def)

lemma binary64_ulp_pos: "0 < binary64_ulp x"
  by (simp add: binary64_ulp_def pow2_pos)

lemma round_half_even_bounds: "\<lfloor>q\<rfloor> \<le> round_half_even q \<and> round_half_even q \<le> \<lceil>q\<rceil>"
proof -
  have "q - of_int \<lfloor>q\<rfloor> < 1 / 2 \<or> \<lfloor>q\<rfloor> + 1 \<le> \<lceil>q\<rceil>"
  proof (cases "q = of_int \<lfloor>q\<rfloor>")
    case True
    then show ?thesis by simp
  next
    case False
    then have "of_int \<lfloor>q\<rfloor> < q" using of_int_floor_le[of q] by linarith
    then have "\<lfloor>q\<rfloor> < \<lceil>q\<rceil>" by (simp add: less_ceiling_iff)
    then show ?thesis by simp
  qed
  moreover have "\<lfloor>q\<rfloor> \<le> \<lceil>q\<rceil>" by (rule floor_le_ceiling)
  ultimately show ?thesis by (auto simp: round_half_even_def)
qed

lemma round_half_even_of_int [simp]: "round_half_even (of_int k) = k"
  by (simp add: round_half_even_def)

lemma binary64_exponent_bounds:
  assumes "0 < x"
  shows "pow2 (binary64_exponent x) \<le> x \<and> x < pow2 (binary64_exponent x + 1)"
proof (cases "1 \<le> x")
  case True
  let ?m = "nat \<lfloor>x\<rfloor>"
  let ?w = "floorlog 2 ?m"
  have m: "0 < ?m" using True by simp
  from floorlog_bounds[OF m, of 2] have b: "2 ^ (?w - 1) \<le> ?m" "?m < 2 ^ ?w" by simp_all
  have w: "0 < ?w" using m by (simp add: floorlog_def)
  have e: "binary64_exponent x = int (?w - 1)" using True w by (simp add: binary64_exponent_def of_nat_diff)
  have "(2::real) ^ (?w - 1) \<le> real ?m" using b(1) by (metis of_nat_le_iff of_nat_numeral of_nat_power)
  also have "real ?m \<le> x" using True by simp
  finally have lo: "(2::real) ^ (?w - 1) \<le> x" .
  from b(2) have "Suc ?m \<le> 2 ^ ?w" by (rule Suc_leI)
  then have "real (Suc ?m) \<le> 2 ^ ?w" by (metis of_nat_le_iff of_nat_numeral of_nat_power)
  moreover have "x < real (Suc ?m)" using True by simp linarith
  ultimately have hi: "x < 2 ^ ?w" by linarith
  have p1: "pow2 (int (?w - 1)) = 2 ^ (?w - 1)" by (simp add: pow2_def)
  have "int (?w - 1) + 1 = int ?w" using w by linarith
  then have p2: "pow2 (int (?w - 1) + 1) = 2 ^ ?w" by (simp add: pow2_def)
  show ?thesis unfolding e p1 p2 using lo hi by blast
next
  case False
  let ?m = "nat \<lceil>1 / x\<rceil>"
  let ?w = "floorlog 2 (?m - 1)"
  have x1: "x < 1" using False by simp
  have inv: "1 < 1 / x" using assms x1 by simp
  then have c: "2 \<le> \<lceil>1 / x\<rceil>" by (simp add: le_ceiling_iff)
  then have m: "0 < ?m - 1" by simp
  from floorlog_bounds[OF m, of 2] have b: "2 ^ (?w - 1) \<le> ?m - 1" "?m - 1 < 2 ^ ?w" by simp_all
  have w: "0 < ?w" using m by (simp add: floorlog_def)
  have e: "binary64_exponent x = - int ?w" using False by (simp add: binary64_exponent_def)
  have "Suc (?m - 1) \<le> 2 ^ ?w" using b(2) by (rule Suc_leI)
  then have "?m \<le> 2 ^ ?w" using m by (simp only: Suc_pred' [symmetric] One_nat_def) 
  then have "real ?m \<le> 2 ^ ?w" by (metis of_nat_le_iff of_nat_numeral of_nat_power)
  moreover have "1 / x \<le> real ?m" using c by (simp add: le_of_int_ceiling of_nat_nat)
  ultimately have "1 / x \<le> 2 ^ ?w" by linarith
  then have lo: "1 / 2 ^ ?w \<le> x" using assms by (simp add: field_simps)
  have "(2::real) ^ (?w - 1) \<le> real (?m - 1)" using b(1) by (metis of_nat_le_iff of_nat_numeral of_nat_power)
  also have "real (?m - 1) = of_int \<lceil>1 / x\<rceil> - 1"
  proof -
    have "0 \<le> \<lceil>1 / x\<rceil>" using c by linarith
    then have "real ?m = of_int \<lceil>1 / x\<rceil>" by (rule of_nat_nat)
    moreover have "1 \<le> ?m" using m by linarith
    then have "real (?m - 1) = real ?m - 1" by (simp only: of_nat_diff of_nat_1)
    ultimately show ?thesis by (simp only:)
  qed
  also have "\<dots> < 1 / x" using ceiling_correct[of "1 / x"] by linarith
  finally have "(2::real) ^ (?w - 1) < 1 / x" .
  then have hi: "x < 1 / 2 ^ (?w - 1)" using assms by (simp add: field_simps)
  have "pow2 (- int ?w + 1) = 1 / 2 ^ (?w - 1)"
  proof (cases "?w = 1")
    case True
    then show ?thesis by (simp add: pow2_def)
  next
    case False
    with w have "1 < ?w" by simp
    then have "nat (int ?w - 1) = ?w - 1" by simp
    then show ?thesis using \<open>1 < ?w\<close> by (simp add: pow2_def)
  qed
  moreover have "pow2 (- int ?w) = 1 / 2 ^ ?w" using w by (simp add: pow2_def)
  ultimately show ?thesis using lo hi by (simp add: e)
qed

lemma binary64_round_nonneg: "0 \<le> x \<Longrightarrow> 0 \<le> binary64_round x"
proof (cases "x = 0")
  case True
  then show ?thesis by (simp add: binary64_round_def)
next
  case False
  assume "0 \<le> x"
  have "0 \<le> x / binary64_ulp x" using \<open>0 \<le> x\<close> binary64_ulp_pos[of x] by simp
  then have "0 \<le> \<lfloor>x / binary64_ulp x\<rfloor>" by simp
  then have "0 \<le> round_half_even (x / binary64_ulp x)"
    using round_half_even_bounds[of "x / binary64_ulp x"] by linarith
  then show ?thesis using False binary64_ulp_pos[of x]
    by (simp add: binary64_round_def)
qed

lemma ulp_below_2_53:
  assumes "0 < x" and "x < 2 ^ 53"
  shows "\<exists>k. binary64_ulp x = 1 / 2 ^ k"
proof -
  have "binary64_exponent x \<le> 52"
  proof (cases "1 \<le> x")
    case True
    have "\<lfloor>x\<rfloor> < 2 ^ 53" using assms(2) by (simp add: floor_less_iff)
    then have "nat \<lfloor>x\<rfloor> < 2 ^ 53" using True by (simp add: nat_less_iff)
    then have "floorlog 2 (nat \<lfloor>x\<rfloor>) \<le> 53" by (simp add: floorlog_leI)
    then show ?thesis using True by (simp add: binary64_exponent_def)
  next
    case False
    then show ?thesis by (simp add: binary64_exponent_def)
  qed
  then have "max (binary64_exponent \<bar>x\<bar>) (- 1022) - 52 \<le> 0" using assms(1) by simp
  then have "binary64_ulp x = 1 / 2 ^ nat (- (max (binary64_exponent \<bar>x\<bar>) (- 1022) - 52))"
    unfolding binary64_ulp_def pow2_def by (auto simp del: max_less_iff_conj)
  then show ?thesis by blast
qed

lemma binary64_round_le_nat:
  assumes "0 < x" and "x \<le> real N" and "N < 2 ^ 53"
  shows "binary64_round x \<le> real N"
proof -
  have "real N < 2 ^ 53" using assms(3) by (metis of_nat_less_iff of_nat_numeral of_nat_power)
  with assms(2) have "x < 2 ^ 53" by simp
  with assms(1) obtain k where u: "binary64_ulp x = 1 / 2 ^ k" using ulp_below_2_53 by blast
  have "x / binary64_ulp x = x * 2 ^ k" by (simp add: u)
  also have "\<dots> \<le> real N * 2 ^ k" using assms(2) by (simp add: mult_right_mono)
  also have "real N * 2 ^ k = of_int (int N * 2 ^ k)" by simp
  finally have "x / binary64_ulp x \<le> of_int (int N * 2 ^ k)" .
  then have "\<lceil>x / binary64_ulp x\<rceil> \<le> int N * 2 ^ k" by (simp add: ceiling_le_iff)
  then have "round_half_even (x / binary64_ulp x) \<le> int N * 2 ^ k"
    using round_half_even_bounds[of "x / binary64_ulp x"] by linarith
  then have "(of_int (round_half_even (x / binary64_ulp x)) :: real) \<le> of_int (int N * 2 ^ k)"
    by (simp only: of_int_le_iff)
  then have "of_int (round_half_even (x / binary64_ulp x)) * binary64_ulp x
               \<le> of_int (int N * 2 ^ k) * binary64_ulp x"
    using binary64_ulp_pos[of x] by (simp add: mult_right_mono)
  also have "of_int (int N * 2 ^ k) * binary64_ulp x = real N" by (simp add: u)
  finally show ?thesis using assms(1) by (simp add: binary64_round_def)
qed

lemma binary64_round_nat:
  assumes "N < 2 ^ 53"
  shows "binary64_round (real N) = real N"
proof (cases "N = 0")
  case True
  then show ?thesis by (simp add: binary64_round_def)
next
  case False
  let ?x = "real N"
  have pos: "0 < ?x" using False by simp
  have "?x < 2 ^ 53" using assms by (metis of_nat_less_iff of_nat_numeral of_nat_power)
  with pos obtain k where u: "binary64_ulp ?x = 1 / 2 ^ k" using ulp_below_2_53 by blast
  have "?x / binary64_ulp ?x = of_int (int N * 2 ^ k)" unfolding u by simp
  then have "round_half_even (?x / binary64_ulp ?x) = int N * 2 ^ k"
    by (simp only: round_half_even_of_int)
  then have "of_int (round_half_even (?x / binary64_ulp ?x)) * binary64_ulp ?x = ?x" unfolding u by simp
  then show ?thesis using pos by (simp add: binary64_round_def)
qed

text \<open>
  The float product of a pool size below \<open>2 ^ 53\<close> and a float fraction in (0, 1] has
  a ceiling within the pool size.
\<close>

lemma float_fraction_within_pool:
  assumes "0 < binary64_round f" and "binary64_round f \<le> 1" and "n < 2 ^ 53"
  shows "\<lceil>binary64_round (binary64_round (real n) * binary64_round f)\<rceil> \<le> int n"
proof (cases "n = 0")
  case True
  then show ?thesis by (simp add: binary64_round_def)
next
  case False
  have r: "binary64_round (real n) = real n" using assms(3) by (rule binary64_round_nat)
  have pos: "0 < real n * binary64_round f" using False assms(1) by simp
  have le: "real n * binary64_round f \<le> real n" using assms(2) by (simp add: mult_left_le)
  from binary64_round_le_nat[OF pos le assms(3)]
  have "binary64_round (real n * binary64_round f) \<le> real n" .
  then have "\<lceil>binary64_round (real n * binary64_round f)\<rceil> \<le> \<lceil>real n\<rceil>" by (rule ceiling_mono)
  then show ?thesis using r by simp
qed

lemma n_to_draw_float_examples:
  "n_to_draw (MaxFloat (7 / 25)) 25 = 8 \<and> n_to_draw (MaxFloat (1 / 10)) 10 = 1 \<and>
   n_to_draw (MaxFloat (1 / 2)) 7 = 4 \<and> n_to_draw (MaxFloat 1) 7 = 7"
  by code_simp

lemma n_to_draw_bounds:
  assumes "check_max_candidates mc = None"
  shows "0 \<le> n_to_draw mc n \<and> n_to_draw mc n \<le> int n"
proof (cases mc)
  case (MaxInt m)
  then show ?thesis using assms by (auto simp: check_max_candidates_def n_to_draw_def split: if_splits)
next
  case (MaxFloat f)
  with assms have "0 \<le> binary64_round f" by (auto simp: check_max_candidates_def split: if_splits)
  moreover have "0 \<le> binary64_round (real n)" by (simp add: binary64_round_nonneg)
  ultimately have "0 \<le> binary64_round (real n) * binary64_round f" by simp
  then have "0 \<le> binary64_round (binary64_round (real n) * binary64_round f)"
    by (rule binary64_round_nonneg)
  then have "0 \<le> \<lceil>binary64_round (binary64_round (real n) * binary64_round f)\<rceil>"
    by (simp add: ceiling_le_iff less_le_trans)
  then show ?thesis using MaxFloat by (simp add: n_to_draw_def)
next
  case MaxOther
  then show ?thesis using assms by (simp add: check_max_candidates_def)
qed

lemma sub_sample_succeeds:
  assumes "check_max_candidates mc = None"
  shows "\<exists>new nci. sub_sample G rs mc candidates y ml = Inr (new, nci)"
proof -
  have c: "\<And>a :: nat list. \<exists>s. choice G rs a (n_to_draw mc (length a)) = Inr s"
    using n_to_draw_bounds[OF assms] choice_succeeds by blast
  show ?thesis
  proof (cases candidates)
    case CandNone
    then show ?thesis using c[of "unlabeled_indices y ml"] by (auto simp: sub_sample_def Let_def)
  next
    case (CandIndices x2)
    then show ?thesis using c[of x2] by (auto simp: sub_sample_def)
  next
    case (CandFeatures F)
    then show ?thesis using c[of "[0..<length F]"] by (auto simp: sub_sample_def)
  qed
qed

lemma n_to_draw_exceeding:
  "int n < m \<Longrightarrow> n_to_draw (MaxInt m) n = int n"
  by (simp add: n_to_draw_def)

lemma sub_sample_whole_pool:
  assumes "int (pool_size candidates y ml) < m"
    and "sub_sample G rs (MaxInt m) candidates y ml = Inr (new, nci)"
  shows "mset (candidate_items new y ml) = mset (candidate_items candidates y ml)"
proof (cases candidates)
  case CandNone
  with assms obtain s where
    "choice G rs (unlabeled_indices y ml) (int (length (unlabeled_indices y ml))) = Inr s"
    "new = CandIndices s"
    by (auto simp: sub_sample_def pool_size_def n_to_draw_exceeding Let_def split: sum.splits)
  then show ?thesis using CandNone choice_all by (fastforce simp: candidate_items_def)
next
  case (CandIndices c)
  with assms obtain s where "choice G rs c (int (length c)) = Inr s" "new = CandIndices s"
    by (auto simp: sub_sample_def pool_size_def n_to_draw_exceeding split: sum.splits)
  then show ?thesis using CandIndices choice_all by (fastforce simp: candidate_items_def)
next
  case (CandFeatures F)
  with assms obtain s where s: "choice G rs [0..<length F] (int (length [0..<length F])) = Inr s"
    "new = CandFeatures (map (\<lambda>i. F ! i) s)"
    by (auto simp: sub_sample_def pool_size_def n_to_draw_exceeding split: sum.splits)
  from choice_all[OF s(1)] have "mset s = mset [0..<length F]" .
  then have "mset (map (\<lambda>i. F ! i) s) = mset (map (\<lambda>i. F ! i) [0..<length F])"
    by (metis mset_map)
  then have "mset (map (\<lambda>i. F ! i) s) = mset F" by (simp add: map_nth)
  then have "mset (map Inr (map (\<lambda>i. F ! i) s)) = mset (map Inr F)"
    by (metis mset_map)
  then show ?thesis using CandFeatures s(2) by (simp only: candidate_items_def candidates.case)
qed

lemma fold_update_props:
  "distinct (map fst ivs) \<Longrightarrow> \<forall>iv\<in>set ivs. fst iv < length base \<Longrightarrow>
   length (fold (\<lambda>iv acc. acc[fst iv := snd iv]) ivs base) = length base \<and>
   (\<forall>iv\<in>set ivs. fold (\<lambda>iv acc. acc[fst iv := snd iv]) ivs base ! fst iv = snd iv) \<and>
   (\<forall>c. c \<notin> fst ` set ivs \<longrightarrow> fold (\<lambda>iv acc. acc[fst iv := snd iv]) ivs base ! c = base ! c)"
proof (induction ivs arbitrary: base)
  case Nil
  then show ?case by simp
next
  case (Cons iv ivs)
  let ?b = "base[fst iv := snd iv]"
  let ?r = "fold (\<lambda>iv acc. acc[fst iv := snd iv]) ivs ?b"
  have d: "distinct (map fst ivs)" and notin: "fst iv \<notin> fst ` set ivs"
    using Cons.prems(1) by auto
  have b: "\<forall>iv\<in>set ivs. fst iv < length ?b" using Cons.prems(2) by simp
  from Cons.IH[OF d b] have ih:
    "length ?r = length ?b" "\<forall>iv\<in>set ivs. ?r ! fst iv = snd iv"
    "\<forall>c. c \<notin> fst ` set ivs \<longrightarrow> ?r ! c = ?b ! c" by auto
  have first: "?r ! fst iv = snd iv"
    using ih(3) notin Cons.prems(2) by simp
  have other: "\<forall>c. c \<notin> fst ` set (iv # ivs) \<longrightarrow> ?r ! c = base ! c"
    using ih(3) by auto
  show ?case using ih(1,2) first other by simp
qed

lemma scatter_props:
  assumes "distinct idx" and "\<forall>i\<in>set idx. i < k" and "length row = length idx"
  shows "length (scatter idx row k) = k"
    and "\<forall>j<length idx. scatter idx row k ! (idx ! j) = row ! j"
    and "\<forall>c. c \<notin> set idx \<longrightarrow> c < k \<longrightarrow> scatter idx row k ! c = None"
proof -
  let ?ivs = "zip idx row"
  have fst_ivs: "map fst ?ivs = idx" using assms(3) by simp
  have d: "distinct (map fst ?ivs)" using assms(1) fst_ivs by simp
  have b: "\<forall>iv\<in>set ?ivs. fst iv < length (replicate k (None::flt))"
    using assms(2) by (auto dest: set_zip_leftD)
  note p = fold_update_props[OF d b]
  from p show "length (scatter idx row k) = k" by (simp add: scatter_def)
  show "\<forall>j<length idx. scatter idx row k ! (idx ! j) = row ! j"
  proof (intro allI impI)
    fix j assume j: "j < length idx"
    then have "(idx ! j, row ! j) \<in> set ?ivs" using assms(3) by (auto simp: in_set_zip intro!: exI[of _ j])
    with p show "scatter idx row k ! (idx ! j) = row ! j" by (auto simp: scatter_def)
  qed
  show "\<forall>c. c \<notin> set idx \<longrightarrow> c < k \<longrightarrow> scatter idx row k ! c = None"
  proof (intro allI impI)
    fix c assume c: "c \<notin> set idx" "c < k"
    have "fst ` set ?ivs = set idx" using fst_ivs by (metis set_map)
    with c have "c \<notin> fst ` set ?ivs" by simp
    with p have "scatter idx row k ! c = replicate k None ! c" by (simp add: scatter_def)
    then show "scatter idx row k ! c = None" using c(2) by simp
  qed
qed

lemma each_or_error_id:
  "\<forall>x\<in>set xs. f x = Inr x \<Longrightarrow> each_or_error f xs = Inr xs"
  by (induction xs) auto

lemma broadcast_to_same_shape:
  assumes "length u = b" and "\<forall>row\<in>set u. length row = n"
  shows "broadcast_to u b n = Inr u"
proof -
  have "each_or_error (\<lambda>row. broadcast_axis row n) u = Inr u"
    using assms(2) by (intro each_or_error_id) (simp add: broadcast_axis_def)
  then show ?thesis using assms(1) by (simp add: broadcast_to_def broadcast_axis_def)
qed

lemma sub_sample_features:
  assumes "sub_sample G rs mc (CandFeatures F) y ml = Inr (new, nci)"
  shows "new = CandFeatures (map (\<lambda>i. F ! i) nci)" and "distinct nci"
    and "\<forall>c\<in>set nci. c < length F" and "int (length nci) = n_to_draw mc (length F)"
proof -
  from assms have c: "choice G rs [0..<length F] (n_to_draw mc (length F)) = Inr nci"
    and n: "new = CandFeatures (map (\<lambda>i. F ! i) nci)"
    by (auto simp: sub_sample_def split: sum.splits)
  show "new = CandFeatures (map (\<lambda>i. F ! i) nci)" by (rule n)
  from choice_distinct[OF c] show "distinct nci" and "\<forall>c\<in>set nci. c < length F" by auto
  from choice_Inr(2)[OF c] show "int (length nci) = n_to_draw mc (length F)" .
qed

text \<open>
  Claim C6, as amended. With \<open>return_utilities\<close> true and the candidates given as a
  feature matrix of \<open>k\<close> rows, the sub-sampled columns \<open>new_candidate_indices\<close> are
  distinct positions below \<open>k\<close>; when the inner strategy returns utilities of shape
  (batch\_size, size of the sub-sample) and indices into the sub-sample, the wrapper
  returns an array of shape (batch\_size, k) that is \<open>NaN\<close> at every column outside the
  sub-sample and holds, at the column of the \<open>j\<close>-th sub-sampled candidate, the inner
  strategy's utility of that candidate (\<open>NaN\<close> where the inner strategy has \<open>NaN\<close>),
  and the returned indices are the inner ones translated to positions below \<open>k\<close>.
\<close>

theorem sub_sampling_embeds_utilities:
  assumes v: "validate X0 y0 c0 b0 r0 = (Inr (X, y, CandFeatures F, b, True), ws)"
    and s: "sub_query_strategy self = QueryStrategy inner"
    and mc: "check_max_candidates (sub_max_candidates self) = None"
    and ss: "sub_sample G
               (Generator (derive (sub_random_state self)
                  (length (filter (\<lambda>b. b) (is_labeled y (sub_missing_label self))) + 1)) 0)
               (sub_max_candidates self) (CandFeatures F) y (sub_missing_label self) = Inr (new, nci)"
    and inn: "inner X y new b True kw = (Inr (q, u), ws')"
    and rows: "length u = b" and cols: "\<forall>row\<in>set u. length row = length nci"
    and qr: "\<forall>i\<in>set q. i < length nci"
  shows "new = CandFeatures (map (\<lambda>i. F ! i) nci) \<and> distinct nci \<and> (\<forall>c\<in>set nci. c < length F) \<and>
         (\<exists>U. sub_sampling_query G derive validate self X0 y0 c0 b0 r0 kw =
                 (Inr (map (\<lambda>i. nci ! i) q, Some U), ws @ ws') \<and>
              length U = b \<and>
              (\<forall>i<b. length (U ! i) = length F \<and>
                     (\<forall>j<length nci. U ! i ! (nci ! j) = u ! i ! j) \<and>
                     (\<forall>c<length F. c \<notin> set nci \<longrightarrow> U ! i ! c = None)) \<and>
              (\<forall>i\<in>set (map (\<lambda>i. nci ! i) q). i < length F))"
proof -
  note f = sub_sample_features[OF ss]
  let ?U = "map (\<lambda>row. scatter nci row (length F)) u"
  have emb: "embed_utilities u nci b (length F) = Inr ?U"
    using broadcast_to_same_shape[OF rows cols] by (simp add: embed_utilities_def)
  have ti: "take_items nci q = Inr (map (\<lambda>i. nci ! i) q)"
    using qr by (simp add: take_items_def list_all_iff)
  have res: "sub_sampling_query G derive validate self X0 y0 c0 b0 r0 kw =
        (Inr (map (\<lambda>i. nci ! i) q, Some ?U), ws @ ws')"
    using v s mc ss inn emb ti by (simp add: sub_sampling_query_def Let_def)
  have rowsU: "\<forall>i<b. length (?U ! i) = length F \<and>
                     (\<forall>j<length nci. ?U ! i ! (nci ! j) = u ! i ! j) \<and>
                     (\<forall>c<length F. c \<notin> set nci \<longrightarrow> ?U ! i ! c = None)"
  proof (intro allI impI)
    fix i assume i: "i < b"
    then have "u ! i \<in> set u" using rows by simp
    then have l: "length (u ! i) = length nci" using cols by blast
    from scatter_props[OF f(2) f(3) l] i rows
    show "length (?U ! i) = length F \<and>
          (\<forall>j<length nci. ?U ! i ! (nci ! j) = u ! i ! j) \<and>
          (\<forall>c<length F. c \<notin> set nci \<longrightarrow> ?U ! i ! c = None)"
      by simp
  qed
  have inF: "\<forall>i\<in>set (map (\<lambda>i. nci ! i) q). i < length F"
    using qr f(3) by auto
  show ?thesis using f(1,2,3) res rowsU inF rows
    by (intro conjI exI[of _ ?U]) simp_all
qed

lemma sub_sample_cong:
  assumes "n_to_draw mc (pool_size candidates y ml) = n_to_draw mc' (pool_size candidates y ml)"
  shows "sub_sample G rs mc candidates y ml = sub_sample G rs mc' candidates y ml"
  using assms by (cases candidates) (simp_all add: sub_sample_def pool_size_def Let_def)

lemma sub_sampling_query_warnings:
  assumes v: "validate X0 y0 c0 b0 r0 = (Inr (X, y, cands, b, r), ws)"
    and s: "sub_query_strategy self = QueryStrategy inner"
    and mc: "check_max_candidates (sub_max_candidates self) = None"
    and ss: "sub_sample G
               (Generator (derive (sub_random_state self)
                  (length (filter (\<lambda>b. b) (is_labeled y (sub_missing_label self))) + 1)) 0)
               (sub_max_candidates self) cands y (sub_missing_label self) = Inr (new, nci)"
  shows "snd (sub_sampling_query G derive validate self X0 y0 c0 b0 r0 kw) =
           ws @ snd (inner X y new b r kw)"
proof -
  obtain res ws' where i: "inner X y new b r kw = (res, ws')" by (cases "inner X y new b r kw")
  show ?thesis
  proof (cases res)
    case (Inl e)
    then show ?thesis using v s mc ss i by (simp add: sub_sampling_query_def Let_def)
  next
    case (Inr qu)
    obtain q u where qu: "qu = (q, u)" by (cases qu)
    show ?thesis
    proof (cases cands)
      case CandNone
      then show ?thesis using v s mc ss i Inr qu by (simp add: sub_sampling_query_def Let_def)
    next
      case (CandIndices c)
      then show ?thesis using v s mc ss i Inr qu by (simp add: sub_sampling_query_def Let_def)
    next
      case (CandFeatures F)
      then show ?thesis using v s mc ss i Inr qu
        by (simp add: sub_sampling_query_def Let_def split: sum.splits)
    qed
  qed
qed

text \<open>
  Claim C5, as amended. When \<open>max_candidates\<close>, an integer, exceeds the size of the
  resolved candidate pool, the wrapper clips it to the pool size and proceeds: the
  draw does not raise, the sub-sample is the whole pool in some order, the warnings of
  the call are those of the validation and of the inner strategy, none of the
  wrapper's own, and for a pool that is not empty the outcome is that of the same
  call with \<open>max_candidates\<close> set to the pool size. (A float fraction in (0, 1] never
  exceeds a pool of fewer than \<open>2 ^ 53\<close> candidates: \<open>float_fraction_within_pool\<close>.)
\<close>

theorem sub_sampling_clips_to_pool:
  assumes v: "validate X0 y0 c0 b0 r0 = (Inr (X, y, cands, b, r), ws)"
    and s: "sub_query_strategy self = QueryStrategy inner"
    and m: "sub_max_candidates self = MaxInt m"
    and ex: "int (pool_size cands y (sub_missing_label self)) < m"
  shows "\<exists>new nci.
           sub_sample G
             (Generator (derive (sub_random_state self)
                (length (filter (\<lambda>b. b) (is_labeled y (sub_missing_label self))) + 1)) 0)
             (MaxInt m) cands y (sub_missing_label self) = Inr (new, nci) \<and>
           mset (candidate_items new y (sub_missing_label self)) =
             mset (candidate_items cands y (sub_missing_label self)) \<and>
           snd (sub_sampling_query G derive validate self X0 y0 c0 b0 r0 kw) =
             ws @ snd (inner X y new b r kw) \<and>
           (0 < pool_size cands y (sub_missing_label self) \<longrightarrow>
              sub_sampling_query G derive validate self X0 y0 c0 b0 r0 kw =
              sub_sampling_query G derive validate
                (self\<lparr>sub_max_candidates := MaxInt (int (pool_size cands y (sub_missing_label self)))\<rparr>)
                X0 y0 c0 b0 r0 kw)"
proof -
  let ?ml = "sub_missing_label self"
  let ?rs = "Generator (derive (sub_random_state self)
                (length (filter (\<lambda>b. b) (is_labeled y ?ml)) + 1)) 0"
  let ?n = "pool_size cands y ?ml"
  from ex have m1: "1 \<le> m" by linarith
  then have mc: "check_max_candidates (sub_max_candidates self) = None"
    using m by (simp add: check_max_candidates_def)
  from sub_sample_succeeds[of "MaxInt m" G ?rs cands y ?ml] m1
  obtain new nci where ss: "sub_sample G ?rs (MaxInt m) cands y ?ml = Inr (new, nci)"
    by (auto simp: check_max_candidates_def)
  have whole: "mset (candidate_items new y ?ml) = mset (candidate_items cands y ?ml)"
    using sub_sample_whole_pool[OF ex ss] .
  have w: "snd (sub_sampling_query G derive validate self X0 y0 c0 b0 r0 kw) =
             ws @ snd (inner X y new b r kw)"
    using sub_sampling_query_warnings[where validate = validate and ?X0.0 = X0 and ?y0.0 = y0
        and ?c0.0 = c0 and ?b0.0 = b0 and ?r0.0 = r0 and self = self and inner = inner, OF v s mc]
      ss m by simp
  have eq: "0 < ?n \<longrightarrow>
              sub_sampling_query G derive validate self X0 y0 c0 b0 r0 kw =
              sub_sampling_query G derive validate (self\<lparr>sub_max_candidates := MaxInt (int ?n)\<rparr>)
                X0 y0 c0 b0 r0 kw"
  proof
    assume pos: "0 < ?n"
    have "n_to_draw (MaxInt m) ?n = n_to_draw (MaxInt (int ?n)) ?n"
      using ex by (simp add: n_to_draw_def)
    then have "sub_sample G ?rs (MaxInt m) cands y ?ml = sub_sample G ?rs (MaxInt (int ?n)) cands y ?ml"
      by (rule sub_sample_cong)
    moreover have "check_max_candidates (MaxInt (int ?n)) = None"
      using pos by (simp add: check_max_candidates_def)
    ultimately show "sub_sampling_query G derive validate self X0 y0 c0 b0 r0 kw =
              sub_sampling_query G derive validate (self\<lparr>sub_max_candidates := MaxInt (int ?n)\<rparr>)
                X0 y0 c0 b0 r0 kw"
      using v s m mc by (simp add: sub_sampling_query_def Let_def)
  qed
  show ?thesis
    apply (rule exI[of _ new])
    apply (rule exI[of _ nci])
    using ss whole w eq apply simp
    done
qed

lemma example_validate:
  "accept_data [[0]] [None] example_pool 2 True = (Inr ([[0]], [None], example_pool, 2, True), [])"
  by (simp add: accept_data_def)

text \<open>
  The claim C5 as stated has the wrapper emit a warning. With a pool of four
  candidates and \<open>max_candidates = 9\<close> the call returns and no warning is emitted.
\<close>

theorem sub_sampling_no_warning_counterexample:
  "int (pool_size example_pool [None] (sub_missing_label example_wrapper)) < 9 \<and>
   sub_sampling_query example_prng example_derive accept_data
     (example_wrapper\<lparr>sub_max_candidates := MaxInt 9\<rparr>) [[0]] [None] example_pool 2 True () =
     (Inr ([3, 0], Some [[Some 3, Some 1, Some 2, Some 7], [Some 3, Some 1, Some 2, None]]), [])"
  by code_simp

theorem sub_sampling_clips_to_pool_witness:
  "accept_data [[0]] [None] example_pool 2 True = (Inr ([[0]], [None], example_pool, 2, True), []) \<and>
   sub_query_strategy (example_wrapper\<lparr>sub_max_candidates := MaxInt 9\<rparr>) = QueryStrategy first_feature_strategy \<and>
   sub_max_candidates (example_wrapper\<lparr>sub_max_candidates := MaxInt 9\<rparr>) = MaxInt 9 \<and>
   int (pool_size example_pool [None] (sub_missing_label (example_wrapper\<lparr>sub_max_candidates := MaxInt 9\<rparr>))) < 9 \<and>
   pool_size example_pool [None] None = 4 \<and>
   sub_sampling_query example_prng example_derive accept_data
     (example_wrapper\<lparr>sub_max_candidates := MaxInt 9\<rparr>) [[0]] [None] example_pool 2 True () =
   sub_sampling_query example_prng example_derive accept_data
     (example_wrapper\<lparr>sub_max_candidates := MaxInt 4\<rparr>) [[0]] [None] example_pool 2 True ()"
proof -
  let ?w = "example_wrapper\<lparr>sub_max_candidates := MaxInt 9\<rparr>"
  have s: "sub_query_strategy ?w = QueryStrategy first_feature_strategy"
    by (simp add: example_wrapper_def)
  have m: "sub_max_candidates ?w = MaxInt 9" by simp
  have p: "pool_size example_pool [None] None = 4" by code_simp
  have ml: "sub_missing_label ?w = None" by (simp add: example_wrapper_def)
  have ex: "int (pool_size example_pool [None] (sub_missing_label ?w)) < 9"
    using p ml by simp
  from sub_sampling_clips_to_pool[where validate = accept_data and ?X0.0 = "[[0]]" and ?y0.0 = "[None]"
      and ?c0.0 = example_pool and ?b0.0 = 2 and ?r0.0 = True and self = ?w
      and inner = first_feature_strategy and G = example_prng and derive = example_derive
      and kw = "()", OF example_validate s m ex]
  have "sub_sampling_query example_prng example_derive accept_data ?w [[0]] [None] example_pool 2 True () =
        sub_sampling_query example_prng example_derive accept_data
          (?w\<lparr>sub_max_candidates := MaxInt (int (pool_size example_pool [None] (sub_missing_label ?w)))\<rparr>)
          [[0]] [None] example_pool 2 True ()"
    using p ml by auto
  then have "sub_sampling_query example_prng example_derive accept_data ?w [[0]] [None] example_pool 2 True () =
        sub_sampling_query example_prng example_derive accept_data
          (example_wrapper\<lparr>sub_max_candidates := MaxInt 4\<rparr>) [[0]] [None] example_pool 2 True ()"
    using p ml by simp
  then show ?thesis using example_validate s m ex p by blast
qed

text \<open>
  The claim C6 as stated has non-\<open>NaN\<close> entries exactly at the sub-sampled columns.
  With a batch of two, an inner strategy that reduces its scores by \<open>simple_batch\<close>
  returns \<open>NaN\<close> in its second row for the candidate selected first; the wrapper
  copies it: column 3 is sub-sampled and row 1 holds \<open>NaN\<close> there.
\<close>

theorem sub_sampling_nan_in_sampled_column_counterexample:
  "sub_sample example_prng (Generator (example_derive (Seed 1) 1) 0) (MaxInt 2) example_pool [None] None =
     Inr (CandFeatures [[1], [7]], [1, 3]) \<and>
   sub_sampling_query example_prng example_derive accept_data example_wrapper
     [[0]] [None] example_pool 2 True () =
     (Inr ([3, 1], Some [[None, Some 1, None, Some 7], [None, Some 1, None, None]]), []) \<and>
   [None, Some 1, None, None :: flt] ! 3 = None \<and> (3::nat) \<in> set [1, 3]"
  by code_simp

lemma example_sub_sample:
  "sub_sample example_prng
     (Generator (example_derive (sub_random_state example_wrapper)
        (length (filter (\<lambda>b. b) (is_labeled [None] (sub_missing_label example_wrapper))) + 1)) 0)
     (sub_max_candidates example_wrapper) (CandFeatures [[3], [1], [2], [7]]) [None]
     (sub_missing_label example_wrapper) = Inr (CandFeatures [[1], [7]], [1, 3])"
  by code_simp

lemma example_inner:
  "first_feature_strategy [[0]] [None] (CandFeatures [[1], [7]]) 2 True () =
     (Inr ([1, 0], [[Some 1, Some 7], [Some 1, None]]), [])"
  by code_simp

theorem sub_sampling_embeds_utilities_witness:
  "accept_data [[0]] [None] (CandFeatures [[3], [1], [2], [7]]) 2 True =
     (Inr ([[0]], [None], CandFeatures [[3], [1], [2], [7]], 2, True), []) \<and>
   sub_query_strategy example_wrapper = QueryStrategy first_feature_strategy \<and>
   check_max_candidates (sub_max_candidates example_wrapper) = None \<and>
   first_feature_strategy [[0]] [None] (CandFeatures [[1], [7]]) 2 True () =
     (Inr ([1, 0], [[Some 1, Some 7], [Some 1, None]]), []) \<and>
   sub_sampling_query example_prng example_derive accept_data example_wrapper
     [[0]] [None] (CandFeatures [[3], [1], [2], [7]]) 2 True () =
     (Inr ([3, 1], Some [[None, Some 1, None, Some 7], [None, Some 1, None, None]]), [])"
proof -
  have v: "accept_data [[0]] [None] (CandFeatures [[3], [1], [2], [7]]) 2 True =
     (Inr ([[0]], [None], CandFeatures [[3], [1], [2], [7]], 2, True), [])"
    by (simp add: accept_data_def)
  have s: "sub_query_strategy example_wrapper = QueryStrategy first_feature_strategy"
    by (simp add: example_wrapper_def)
  have mc: "check_max_candidates (sub_max_candidates example_wrapper) = None"
    by code_simp
  have rows: "length [[Some 1, Some 7], [Some 1, None :: flt]] = 2" by simp
  have cols: "\<forall>row\<in>set [[Some 1, Some 7], [Some 1, None :: flt]]. length row = length [1, 3::nat]"
    by simp
  have qr: "\<forall>i\<in>set [1, 0::nat]. i < length [1, 3::nat]" by simp
  from sub_sampling_embeds_utilities[where validate = accept_data and ?X0.0 = "[[0]]"
      and ?y0.0 = "[None]" and ?c0.0 = "CandFeatures [[3], [1], [2], [7]]" and ?b0.0 = 2
      and ?r0.0 = True and self = example_wrapper and inner = first_feature_strategy
      and G = example_prng and derive = example_derive and kw = "()",
      OF v s mc example_sub_sample example_inner rows cols qr]
  obtain U where U:
    "sub_sampling_query example_prng example_derive accept_data example_wrapper
       [[0]] [None] (CandFeatures [[3], [1], [2], [7]]) 2 True () =
       (Inr (map (\<lambda>i. [1, 3] ! i) [1, 0], Some U), [] @ [])"
    by blast
  have e: "sub_sampling_query example_prng example_derive accept_data example_wrapper
     [[0]] [None] (CandFeatures [[3], [1], [2], [7]]) 2 True () =
     (Inr ([3, 1], Some [[None, Some 1, None, Some 7], [None, Some 1, None, None]]), [])"
    by code_simp
  show ?thesis using v s mc example_inner e U by simp
qed

section \<open>Properties of Core-Set\<close>

lemma euclidean_not_negative: "0 \<le> euclidean a b"
  by (auto simp: euclidean_def intro!: sum_list_nonneg)

lemma euclidean_same: "euclidean x x = 0"
proof -
  have "sum_list (map2 (\<lambda>u v. (u - v)\<^sup>2) x x) = (0::real)" by (induction x) auto
  then show ?thesis by (simp add: euclidean_def)
qed

lemma fold_min_in: "fold min vs (v::'a::linorder) \<in> set (v # vs)"
proof -
  have "Min (set (v # vs)) \<in> set (v # vs)" by (rule Min_in) auto
  then show ?thesis by (simp only: Min.set_eq_fold)
qed

lemma nearest_not_negative: "not_negative (Some (nearest refs x))"
proof (cases refs)
  case Nil
  then show ?thesis by (simp add: nearest_def)
next
  case (Cons r rs)
  have "fold min (map (euclidean x) rs) (euclidean x r) \<in> set (euclidean x r # map (euclidean x) rs)"
    by (rule fold_min_in)
  then have "0 \<le> fold min (map (euclidean x) rs) (euclidean x r)"
    using euclidean_not_negative by auto
  then show ?thesis using Cons by (simp add: nearest_def)
qed

lemma core_set_utilities_not_negative:
  "list_all not_negative (core_set_utilities points refs eligible selected)"
  by (auto simp: core_set_utilities_def list_all_iff nearest_not_negative)

lemma greedy_loop_rows:
  "greedy_loop G n points refs eligible selected rs = Inr (q, us, rsf) \<Longrightarrow>
   length q = n \<and> length us = n \<and>
   (\<forall>j<n. us ! j =
      core_set_utilities points (refs @ map (\<lambda>k. points ! k) (take j q)) eligible (selected @ take j q))"
proof (induction n arbitrary: refs selected rs q us)
  case 0
  then show ?case by simp
next
  case (Suc n)
  from Suc.prems obtain idx rs' where ra:
    "rand_argmax G \<lparr>shape = [length points], data = core_set_utilities points refs eligible selected\<rparr> rs
       = Inr (idx, rs')"
    by (auto split: sum.splits)
  with Suc.prems obtain k where idx: "idx = [k]"
    by (auto split: list.splits sum.splits)
  from Suc.prems ra idx obtain q' us' where
    rec: "greedy_loop G n points (refs @ [points ! k]) eligible (selected @ [k]) rs' = Inr (q', us', rsf)"
    and q: "q = k # q'" and us: "us = core_set_utilities points refs eligible selected # us'"
    by (auto split: sum.splits)
  from Suc.IH[OF rec] have ih: "length q' = n" "length us' = n"
    "\<forall>j<n. us' ! j = core_set_utilities points ((refs @ [points ! k]) @ map (\<lambda>k. points ! k) (take j q'))
                        eligible ((selected @ [k]) @ take j q')"
    by auto
  have "\<forall>j<Suc n. us ! j =
      core_set_utilities points (refs @ map (\<lambda>k. points ! k) (take j q)) eligible (selected @ take j q)"
  proof (intro allI impI)
    fix j assume "j < Suc n"
    then show "us ! j =
      core_set_utilities points (refs @ map (\<lambda>k. points ! k) (take j q)) eligible (selected @ take j q)"
      using ih(3) q us by (cases j) auto
  qed
  then show ?case using ih(1,2) q us by simp
qed

lemma length_filter_upt: "length (filter P [0..<n]) = card {i. i < n \<and> P i}"
proof -
  have "distinct (filter P [0..<n])" by simp
  then have "card (set (filter P [0..<n])) = length (filter P [0..<n])" by (rule distinct_card)
  moreover have "set (filter P [0..<n]) = {i. i < n \<and> P i}" by auto
  ultimately show ?thesis by simp
qed

lemma count_core_set_utilities:
  "count_not_nan (core_set_utilities points refs eligible selected) =
   card ({i. i < length points \<and> i \<in> set eligible} - set selected)"
proof -
  have "count_not_nan (core_set_utilities points refs eligible selected) =
        length (filter (\<lambda>i. i \<in> set eligible \<and> i \<notin> set selected) [0..<length points])"
    by (simp add: count_not_nan_def core_set_utilities_def filter_map comp_def)
  also have "\<dots> = card {i. i < length points \<and> (i \<in> set eligible \<and> i \<notin> set selected)}"
    by (rule length_filter_upt)
  also have "{i. i < length points \<and> (i \<in> set eligible \<and> i \<notin> set selected)} =
             {i. i < length points \<and> i \<in> set eligible} - set selected" by auto
  finally show ?thesis .
qed

lemma greedy_loop_succeeds:
  "n \<le> card ({i. i < length points \<and> i \<in> set eligible} - set selected) \<Longrightarrow>
   \<exists>r. greedy_loop G n points refs eligible selected rs = Inr r"
proof (induction n arbitrary: refs selected rs)
  case 0
  then show ?case by simp
next
  case (Suc n)
  let ?A = "{i. i < length points \<and> i \<in> set eligible}"
  let ?u = "\<lparr>shape = [length points], data = core_set_utilities points refs eligible selected\<rparr>"
  have "0 < count_not_nan (data ?u)" using Suc.prems by (simp add: count_core_set_utilities)
  then obtain idx rs' where ra: "rand_argmax G ?u rs = Inr (idx, rs')"
    using rand_argmax_succeeds by blast
  then obtain k where k: "idx = unravel_index k (shape ?u)" "k < length (data ?u)" "data ?u ! k \<noteq> None"
    using rand_argmax_Inr by blast
  then have idx: "idx = [k]" by simp
  from k(2,3) have kA: "k \<in> ?A - set selected"
    by (auto simp: core_set_utilities_def split: if_splits)
  have fin: "finite (?A - set selected)" by simp
  have "?A - set (selected @ [k]) = (?A - set selected) - {k}" by auto
  then have "card (?A - set (selected @ [k])) = card (?A - set selected) - 1"
    using kA fin by (simp add: card_Diff_singleton)
  then have "n \<le> card (?A - set (selected @ [k]))" using Suc.prems by simp
  from Suc.IH[OF this] obtain r where
    "greedy_loop G n points (refs @ [points ! k]) eligible (selected @ [k]) rs' = Inr r" by blast
  then show ?case using ra idx by (cases r) auto
qed

lemma core_set_query_returns:
  assumes "cs_method self = ''greedy''" and "length X = length y" and "1 \<le> batch_size"
  shows "\<exists>q us. fst (core_set_query G self X y candidates batch_size) = Inr (q, us)"
proof -
  let ?points = "case candidates of CandFeatures F \<Rightarrow> F | _ \<Rightarrow> X"
  let ?eligible = "case candidates of
                     CandNone \<Rightarrow> unlabeled_indices y (cs_missing_label self)
                   | CandIndices c \<Rightarrow> c
                   | CandFeatures F \<Rightarrow> [0..<length F]"
  let ?nc = "length (filter (\<lambda>i. i \<in> set ?eligible) [0..<length ?points])"
  let ?b = "if int ?nc < batch_size then ?nc else nat batch_size"
  have "?nc = card {i. i < length ?points \<and> i \<in> set ?eligible}"
    by (rule length_filter_upt)
  also have "{i. i < length ?points \<and> i \<in> set ?eligible} =
             {i. i < length ?points \<and> i \<in> set ?eligible} - set []" by simp
  finally have nc: "?nc = card ({i. i < length ?points \<and> i \<in> set ?eligible} - set [])" .
  have "?b \<le> ?nc" by auto
  with nc have "?b \<le> card ({i. i < length ?points \<and> i \<in> set ?eligible} - set [])" by simp
  from greedy_loop_succeeds[OF this] obtain r where
    "greedy_loop G ?b ?points (map fst (labeled_samples X y (cs_missing_label self))) ?eligible []
       (cs_random_state self) = Inr r" by blast
  then show ?thesis using assms
    by (cases r) (auto simp: core_set_query_def check_scalar_int_def Let_def)
qed

text \<open>
  Claim C9. In every Core-Set query that returns, row \<open>j\<close> of the utilities gives each
  candidate not yet selected its distance to the nearest reference point, the
  reference points being the labeled samples and the candidates selected at the batch
  positions before \<open>j\<close>; so every entry that is not \<open>NaN\<close> is at least 0. This holds
  for all inputs, rows of \<open>X\<close> all identical included. (The query returns for the
  method \<open>greedy\<close> and a batch size of at least 1: \<open>core_set_query_returns\<close>.)
\<close>

theorem core_set_utilities_are_distances:
  assumes "core_set_query G self X y candidates batch_size = (Inr (q, us), ws)"
  shows "list_all (list_all not_negative) us \<and> length us = length q \<and>
         (\<forall>j<length q. us ! j =
            core_set_utilities (case candidates of CandFeatures F \<Rightarrow> F | _ \<Rightarrow> X)
              (map fst (labeled_samples X y (cs_missing_label self)) @
               map (\<lambda>k. (case candidates of CandFeatures F \<Rightarrow> F | _ \<Rightarrow> X) ! k) (take j q))
              (case candidates of
                 CandNone \<Rightarrow> unlabeled_indices y (cs_missing_label self)
               | CandIndices c \<Rightarrow> c
               | CandFeatures F \<Rightarrow> [0..<length F])
              (take j q))"
proof -
  let ?points = "case candidates of CandFeatures F \<Rightarrow> F | _ \<Rightarrow> X"
  let ?eligible = "case candidates of
                     CandNone \<Rightarrow> unlabeled_indices y (cs_missing_label self)
                   | CandIndices c \<Rightarrow> c
                   | CandFeatures F \<Rightarrow> [0..<length F]"
  let ?refs = "map fst (labeled_samples X y (cs_missing_label self))"
  from assms obtain b rsf where
    gl: "greedy_loop G b ?points ?refs ?eligible [] (cs_random_state self) = Inr (q, us, rsf)"
    by (auto simp: core_set_query_def Let_def split: if_splits option.splits sum.splits)
  from greedy_loop_rows[OF gl] have r: "length q = b" "length us = b"
    "\<forall>j<b. us ! j = core_set_utilities ?points (?refs @ map (\<lambda>k. ?points ! k) (take j q)) ?eligible ([] @ take j q)"
    by auto
  have "\<forall>row\<in>set us. list_all not_negative row"
  proof
    fix row assume "row \<in> set us"
    then obtain j where "j < length us" "row = us ! j" by (auto simp: in_set_conv_nth)
    then show "list_all not_negative row"
      using r(2,3) core_set_utilities_not_negative by simp
  qed
  then have "list_all (list_all not_negative) us" by (simp add: list_all_iff)
  then show ?thesis using r by simp
qed

lemma euclidean_code [code]:
  "euclidean a b = (if a = b then 0 else sqrt (sum_list (map2 (\<lambda>u v. (u - v)\<^sup>2) a b)))"
  by (simp add: euclidean_same) (simp add: euclidean_def)

lemma example_core_set_eval:
  "core_set_query example_prng example_core_set identical_rows [Some 0, None, None] CandNone 2 =
     (Inr ([1, 2], [[None, Some (Dist 0), Some (Dist 0)], [None, None, Some (Dist 0)]]), [])"
  by code_simp

text \<open>
  The degenerate case: three identical rows, the first one labeled, a batch of two.
  All distances are 0.
\<close>

theorem core_set_utilities_are_distances_witness:
  "core_set_query example_prng example_core_set identical_rows [Some 0, None, None] CandNone 2 =
     (Inr ([1, 2], [[None, Some (Dist 0), Some (Dist 0)], [None, None, Some (Dist 0)]]), []) \<and>
   list_all (list_all not_negative)
     [[None, Some (Dist 0), Some (Dist 0)], [None, None, Some (Dist 0)]]"
  using core_set_utilities_are_distances[OF example_core_set_eval] example_core_set_eval by simp

end
